theory Spec2Isabelle
  imports Main
begin

section \<open>MemAgent front end: reference photos, picker polling, image file names\<close>

text \<open>
  The repository's sources are the Next.js front end (\<^verbatim>\<open>frontend/lib/api.ts\<close>,
  \<^verbatim>\<open>frontend/components/ReferencePhotoSelector.tsx\<close> and the chat component with the
  picker flow, \<^verbatim>\<open>src/unnamed/part_000\<close>) and documentation. The Python back end
  (\<^verbatim>\<open>backend/app/agents/team.py\<close>) is not among them.
\<close>

subsection \<open>JavaScript values used by the components\<close>

text \<open>
  A JavaScript \<^verbatim>\<open>Set<string>\<close> iterates in insertion order and holds no element
  twice: it is a list without duplicates, \<^verbatim>\<open>has\<close> is membership, \<^verbatim>\<open>add\<close> appends a
  new element at the end and \<^verbatim>\<open>delete\<close> removes the element.
\<close>

definition set_has :: "'a \<Rightarrow> 'a list \<Rightarrow> bool" where
  "set_has x s = (x \<in> set s)"

definition set_add :: "'a \<Rightarrow> 'a list \<Rightarrow> 'a list" where
  "set_add x s = (if x \<in> set s then s else s @ [x])"

definition set_delete :: "'a \<Rightarrow> 'a list \<Rightarrow> 'a list" where
  "set_delete x s = filter (\<lambda>y. y \<noteq> x) s"

text \<open>
  \<^verbatim>\<open>s.split(c)\<close> for a one-character separator: the pieces between the separators, the
  empty pieces included; the result is never empty.
\<close>

fun js_split :: "char \<Rightarrow> string \<Rightarrow> string list" where
  "js_split c [] = [[]]"
| "js_split c (x # xs) =
     (if x = c then [] # js_split c xs
      else (case js_split c xs of
              [] \<Rightarrow> [[x]]
            | s # ss \<Rightarrow> (x # s) # ss))"

subsection \<open>ReferencePhotoSelector.tsx\<close>

text \<open>
  The \<^verbatim>\<open>ReferencePhoto\<close> interface. Its \<^verbatim>\<open>relevance_score: number\<close> is never read by
  the component and is left out.
\<close>

record ReferencePhoto =
  media_item_id :: string
  thumbnail_url :: string
  url :: string
  creation_time :: "string option"
  description :: "string option"

text \<open>
  \<^verbatim>\<open>
  const togglePhoto = (photoId: string) => {
    const newSelected = new Set(selectedIds)
    if (newSelected.has(photoId)) { newSelected.delete(photoId) }
    else { newSelected.add(photoId) }
    setSelectedIds(newSelected)
  }\<close>
  The state \<^verbatim>\<open>selectedIds\<close> is passed in and the new state returned.
\<close>

definition togglePhoto :: "string \<Rightarrow> string list \<Rightarrow> string list" where
  "togglePhoto photoId selectedIds =
     (let newSelected = selectedIds
      in if set_has photoId newSelected then set_delete photoId newSelected
         else set_add photoId newSelected)"

text \<open>
  \<^verbatim>\<open>handleConfirm\<close> calls \<^verbatim>\<open>onConfirm(Array.from(selectedIds))\<close>: the value is the
  argument \<^verbatim>\<open>onConfirm\<close> receives.
\<close>

definition handleConfirm :: "string list \<Rightarrow> string list" where
  "handleConfirm selectedIds = selectedIds"

text \<open>
  The component renders one button per element of \<^verbatim>\<open>photos\<close>, whose \<^verbatim>\<open>onClick\<close> is
  \<^verbatim>\<open>togglePhoto(photo.media_item_id)\<close> and which is disabled while \<^verbatim>\<open>loading\<close>. Nothing
  else calls \<^verbatim>\<open>togglePhoto\<close>. A click is the index of the button clicked; the state starts
  as the empty set (\<^verbatim>\<open>useState(new Set())\<close>).
\<close>

definition clickPhoto :: "ReferencePhoto list \<Rightarrow> bool \<Rightarrow> string list \<Rightarrow> nat \<Rightarrow> string list" where
  "clickPhoto photos loading selectedIds i =
     (if i < length photos \<and> \<not> loading
      then togglePhoto (media_item_id (photos ! i)) selectedIds
      else selectedIds)"

definition selectedAfter :: "ReferencePhoto list \<Rightarrow> bool \<Rightarrow> nat list \<Rightarrow> string list" where
  "selectedAfter photos loading clicks = foldl (clickPhoto photos loading) [] clicks"

subsection \<open>api.ts: getImageFilenameFromUrl\<close>

text \<open>
  \<^verbatim>\<open>
  export function getImageFilenameFromUrl(imageUrl: string | undefined): string | null {
    if (!imageUrl) return null
    try {
      const path = new URL(imageUrl, 'http://dummy').pathname
      const segments = path.split('/')
      const last = segments[segments.length - 1]
      return last && last.includes('.') ? last : null
    } catch { return null }
  }\<close>
  The platform's URL parser is a parameter: \<open>url_pathname u\<close> is the \<^verbatim>\<open>pathname\<close> of
  \<^verbatim>\<open>new URL(u, 'http://dummy')\<close>, and \<open>None\<close> when the constructor throws. The argument
  is \<open>None\<close> for \<^verbatim>\<open>undefined\<close>; the result is \<open>None\<close> for \<^verbatim>\<open>null\<close>. An index past
  the end of an array reads \<^verbatim>\<open>undefined\<close>, which is falsy.
\<close>

definition getImageFilenameFromUrl :: "(string \<Rightarrow> string option) \<Rightarrow> string option \<Rightarrow> string option" where
  "getImageFilenameFromUrl url_pathname imageUrl =
     (case imageUrl of
        None \<Rightarrow> None
      | Some u \<Rightarrow>
          if u = [] then None
          else (case url_pathname u of
                  None \<Rightarrow> None
                | Some path \<Rightarrow>
                    (let segments = js_split CHR ''/'' path;
                         last = (if length segments - 1 < length segments
                                 then Some (segments ! (length segments - 1)) else None)
                     in case last of
                          None \<Rightarrow> None
                        | Some l \<Rightarrow> if l \<noteq> [] \<and> CHR ''.'' \<in> set l then Some l else None)))"

subsection \<open>The chat component with the picker flow (src/unnamed/part_000)\<close>

text \<open>
  The \<^verbatim>\<open>Message\<close> interface of the component. Of \<^verbatim>\<open>metadata\<close> the fields that the
  handlers and the render conditions below read or write are kept; \<^verbatim>\<open>id\<close>
  (\<^verbatim>\<open>Math.random()\<close> or the server's id) and \<^verbatim>\<open>timestamp\<close> are left out. An optional
  field that is absent is \<open>None\<close>; the optional boolean is \<open>False\<close> when absent.
\<close>

datatype role = User | Assistant

record Metadata =
  stage :: "string option"
  picker_uri :: "string option"
  picker_session_id :: "string option"
  requires_reauth :: bool

record Message =
  role :: role
  content :: string
  metadata :: "Metadata option"

text \<open>What the functions of \<^verbatim>\<open>api.ts\<close> resolve to, as far as the component reads it.\<close>

record SendMessageResponse =
  message :: string
  response_metadata :: "Metadata option"

record PickerSession =
  media_items_set :: bool

record MediaItem =
  item_media_item_id :: string
  item_url :: "string option"

text \<open>
  A rejected promise: \<open>error_status\<close> is \<^verbatim>\<open>error.response?.status\<close> and \<open>error_text\<close>
  is \<^verbatim>\<open>error.response?.data?.detail || error.message\<close>, taken to be a string.
\<close>

record api_error =
  error_status :: "nat option"
  error_text :: string

datatype 'a reply = Returned 'a | Threw api_error

text \<open>The requests the component sends, named after the functions of \<^verbatim>\<open>api.ts\<close>.\<close>

datatype api_call =
    SendMessage string string string
  | SelectReferencePhotos string string "string list"
  | StoreReferencePhotos string string "string list" "string list"
  | GenerateFromReferences string string string
  | GetPickerSession string string
  | ListPickerMedia string string

text \<open>
  The back end is not part of the sources: what it answers to a request sent at a given
  time (\<^verbatim>\<open>Date.now()\<close>, in milliseconds) is a parameter, and so is the time a request
  takes. \<open>trim\<close> is the platform's \<^verbatim>\<open>String.prototype.trim\<close>.
\<close>

record backend =
  sendMessage :: "nat \<Rightarrow> string \<Rightarrow> string \<Rightarrow> string \<Rightarrow> SendMessageResponse reply"
  selectReferencePhotos :: "nat \<Rightarrow> string \<Rightarrow> string \<Rightarrow> string list \<Rightarrow> SendMessageResponse reply"
  storeReferencePhotos ::
    "nat \<Rightarrow> string \<Rightarrow> string \<Rightarrow> string list \<Rightarrow> string list \<Rightarrow> SendMessageResponse reply"
  generateFromReferences :: "nat \<Rightarrow> string \<Rightarrow> string \<Rightarrow> string \<Rightarrow> SendMessageResponse reply"
  getPickerSession :: "nat \<Rightarrow> string \<Rightarrow> string \<Rightarrow> PickerSession reply"
  listPickerMedia :: "nat \<Rightarrow> string \<Rightarrow> string \<Rightarrow> MediaItem list reply"
  latency :: "nat \<Rightarrow> nat"
  trim :: "string \<Rightarrow> string"

text \<open>
  The component's state (its \<^verbatim>\<open>useState\<close> cells and \<^verbatim>\<open>processedPickerSessionsRef.current\<close>),
  the clock \<open>now\<close> and the requests sent so far, each with the time it was sent at. The prop
  \<^verbatim>\<open>userId\<close> is an argument of every handler.
\<close>

record ChatInterface =
  messages :: "Message list"
  input :: string
  loading :: bool
  sessionId :: "string option"
  selectingReferences :: bool
  photoContext :: string
  processedPickerSessions :: "string list"
  now :: nat
  calls :: "(nat \<times> api_call) list"

text \<open>\<^verbatim>\<open>!x\<close> is false for a string that is present and not empty.\<close>

definition truthy :: "string option \<Rightarrow> bool" where
  "truthy x = (case x of None \<Rightarrow> False | Some s \<Rightarrow> s \<noteq> [])"

text \<open>\<^verbatim>\<open>a || b\<close> on strings.\<close>

definition or_else :: "string \<Rightarrow> string \<Rightarrow> string" where
  "or_else a b = (if a \<noteq> [] then a else b)"

text \<open>
  \<^verbatim>\<open>await call\<close>: the request is sent now (\<open>sent\<close> records it and lets the request's
  time pass), and the handler goes on with the answer. \<open>sleep ms\<close> is
  \<^verbatim>\<open>await new Promise((r) => setTimeout(r, ms))\<close>.
\<close>

definition sent :: "backend \<Rightarrow> api_call \<Rightarrow> ChatInterface \<Rightarrow> ChatInterface" where
  "sent b c st = st\<lparr>now := now st + latency b (now st), calls := calls st @ [(now st, c)]\<rparr>"

definition await :: "backend \<Rightarrow> api_call \<Rightarrow> 'a reply \<Rightarrow> ChatInterface \<Rightarrow> 'a reply \<times> ChatInterface" where
  "await b c r st = (r, sent b c st)"

definition sleep :: "nat \<Rightarrow> ChatInterface \<Rightarrow> ChatInterface" where
  "sleep ms st = st\<lparr>now := now st + ms\<rparr>"

definition pollIntervalMs :: nat where
  "pollIntervalMs = 3000"

definition timeoutMs :: nat where
  "timeoutMs = 120000"

text \<open>
  \<^verbatim>\<open>
  const handleSend = async () => {
    if (!input.trim() || !sessionId || loading) return
    const userMessage = { role: 'user', content: input.trim(), ... }
    setMessages(prev => [...prev, userMessage]); setInput(''); setLoading(true)
    try {
      const response = await sendMessage(userId, sessionId, userMessage.content)
      const assistantMessage = { role: 'assistant',
        content: response.message || 'I received your message.', metadata: response.metadata, ... }
      setMessages(prev => [...prev, assistantMessage])
      if (response.metadata?.stage === 'selecting_references') setSelectingReferences(true)
    } catch (error: any) {
      const isPhotosUnauthorized = error.response?.status === 401
      const detail = error.response?.data?.detail || error.message
      const errorMessage = { role: 'assistant',
        content: isPhotosUnauthorized
          ? (typeof detail === 'string' ? detail : 'Google Photos is not connected.')
          : `Sorry, I encountered an error: ${detail}. Please try again.`,
        metadata: isPhotosUnauthorized ? { requires_reauth: true } : undefined, ... }
      setMessages(prev => [...prev, errorMessage])
    } finally { setLoading(false) }
  }\<close>
\<close>

definition reauthMetadata :: "Metadata option" where
  "reauthMetadata =
     Some \<lparr>stage = None, picker_uri = None, picker_session_id = None, requires_reauth = True\<rparr>"


text \<open>
  \<^verbatim>\<open>
  const handleReferenceSelection = async (selectedIds: string[]) => {
    if (!sessionId) return
    setSelectingReferences(false); setLoading(true)
    try {
      const response = await selectReferencePhotos(userId, sessionId, selectedIds)
      const systemMessage = { role: 'assistant',
        content: response.message || 'Processing your selection...', metadata: response.metadata, ... }
      setMessages(prev => [...prev, systemMessage])
    } catch (error: any) {
      const errorMessage = { role: 'assistant',
        content: `Sorry, I encountered an error: ${error.response?.data?.detail || error.message}. Please try again.`, ... }
      setMessages(prev => [...prev, errorMessage])
    } finally { setLoading(false) }
  }
  const handleSkipReferences = async () => { await handleReferenceSelection([]) }\<close>
\<close>

definition handleReferenceSelection ::
  "backend \<Rightarrow> string \<Rightarrow> string list \<Rightarrow> ChatInterface \<Rightarrow> ChatInterface" where
  "handleReferenceSelection b userId selectedIds st =
     (case sessionId st of
        None \<Rightarrow> st
      | Some sid \<Rightarrow>
          if sid = [] then st
          else
            (let st0 = st\<lparr>selectingReferences := False, loading := True\<rparr>;
                 st2 =
                   (case await b (SelectReferencePhotos userId sid selectedIds)
                           (selectReferencePhotos b (now st0) userId sid selectedIds) st0 of
                      (Returned response, st1) \<Rightarrow>
                        (let systemMessage =
                               \<lparr>role = Assistant,
                                content = or_else (message response) ''Processing your selection...'',
                                metadata = response_metadata response\<rparr>
                         in st1\<lparr>messages := messages st1 @ [systemMessage]\<rparr>)
                    | (Threw error, st1) \<Rightarrow>
                        (let errorMessage =
                               \<lparr>role = Assistant,
                                content = ''Sorry, I encountered an error: '' @ error_text error
                                          @ ''. Please try again.'',
                                metadata = None\<rparr>
                         in st1\<lparr>messages := messages st1 @ [errorMessage]\<rparr>))
             in st2\<lparr>loading := False\<rparr>))"


text \<open>
  \<^verbatim>\<open>
  const handleGenerateFromReferences = async (context: string) => {
    if (!sessionId || !userId || loading) return
    setLoading(true); setPhotoContext('')
    try {
      const genResponse = await generateFromReferences(userId, sessionId, context)
      setMessages((prev) => {
        const updated = prev.map((m) =>
          m.metadata?.stage === 'ready_to_generate'
            ? { ...m, metadata: { ...m.metadata, stage: 'generated' } } : m)
        return [...updated, { role: 'assistant',
          content: genResponse.message || 'Your memory has been created!',
          metadata: genResponse.metadata, ... }]
      })
    } catch (error: unknown) {
      const detail = err.response?.data?.detail || err.message
      setMessages((prev) => [...prev,
        { role: 'assistant', content: `Sorry, generation failed: ${detail}`, ... }])
    } finally { setLoading(false) }
  }\<close>
\<close>

definition markGenerated :: "Message \<Rightarrow> Message" where
  "markGenerated m =
     (case metadata m of
        None \<Rightarrow> m
      | Some md \<Rightarrow>
          if stage md = Some ''ready_to_generate''
          then m\<lparr>metadata := Some (md\<lparr>stage := Some ''generated''\<rparr>)\<rparr>
          else m)"

definition handleGenerateFromReferences ::
  "backend \<Rightarrow> string \<Rightarrow> string \<Rightarrow> ChatInterface \<Rightarrow> ChatInterface" where
  "handleGenerateFromReferences b userId context st =
     (case sessionId st of
        None \<Rightarrow> st
      | Some sid \<Rightarrow>
          if sid = [] \<or> userId = [] \<or> loading st then st
          else
            (let st0 = st\<lparr>loading := True, photoContext := []\<rparr>;
                 st2 =
                   (case await b (GenerateFromReferences userId sid context)
                           (generateFromReferences b (now st0) userId sid context) st0 of
                      (Returned genResponse, st1) \<Rightarrow>
                        (let updated = map markGenerated (messages st1)
                         in st1\<lparr>messages := updated @
                              [\<lparr>role = Assistant,
                                content = or_else (message genResponse) ''Your memory has been created!'',
                                metadata = response_metadata genResponse\<rparr>]\<rparr>)
                    | (Threw error, st1) \<Rightarrow>
                        st1\<lparr>messages := messages st1 @
                              [\<lparr>role = Assistant,
                                content = ''Sorry, generation failed: '' @ error_text error,
                                metadata = None\<rparr>]\<rparr>)
             in st2\<lparr>loading := False\<rparr>))"

text \<open>
  \<^verbatim>\<open>
  const handlePickerFinished = async (pickerSessionId: string) => {
    if (!sessionId || !userId) return
    setSelectingReferences(false); setLoading(true)
    const pollIntervalMs = 3000
    const timeoutMs = 120000
    const start = Date.now()
    try {
      while (Date.now() - start < timeoutMs) {
        const session = await getPickerSession(userId, pickerSessionId)
        if (session.media_items_set) {
          const { media_items } = await listPickerMedia(userId, pickerSessionId)
          const ids = media_items.map((m) => m.media_item_id)
          const urls = media_items.map((m) => m.url).filter(Boolean)
          const storeResponse = await storeReferencePhotos(userId, sessionId, ids, urls)
          setMessages((prev) => [...prev, { role: 'assistant',
            content: storeResponse.message || 'Here are your reference photos. Add any context below, then click Generate when ready.',
            metadata: storeResponse.metadata, ... }])
          return
        }
        await new Promise((r) => setTimeout(r, pollIntervalMs))
      }
      const errorMessage = { role: 'assistant',
        content: "Selection timed out. Please open Google Photos again, complete your selection, and click \"I've finished selecting\" within a few minutes.", ... }
      setMessages((prev) => [...prev, errorMessage])
    } catch (error: any) {
      const errMsg = error.response?.data?.detail || error.message
      const isPhotosUnauthorized = error.response?.status === 401
      setMessages((prev) => [...prev, { role: 'assistant',
        content: isPhotosUnauthorized
          ? (typeof errMsg === 'string' ? errMsg : 'Google Photos is not connected.')
          : `Sorry, something went wrong: ${errMsg}. You can try again or say "skip" to generate without references.`,
        metadata: isPhotosUnauthorized ? { requires_reauth: true } : undefined, ... }])
    } finally { setLoading(false) }
  }\<close>
  The \<^verbatim>\<open>while\<close> loop is \<open>pollUntilSet\<close>: it ends with the session's items set, with the
  loop's condition false, or with the exception of a status request.
\<close>

datatype loop_exit = ItemsSet | LoopEnded | Caught api_error

function pollUntilSet ::
  "backend \<Rightarrow> string \<Rightarrow> string \<Rightarrow> nat \<Rightarrow> ChatInterface \<Rightarrow> loop_exit \<times> ChatInterface" where
  "pollUntilSet b userId pickerSessionId start st =
     (if now st - start < timeoutMs then
        (case await b (GetPickerSession userId pickerSessionId)
                (getPickerSession b (now st) userId pickerSessionId) st of
           (Threw error, st1) \<Rightarrow> (Caught error, st1)
         | (Returned session, st1) \<Rightarrow>
             if media_items_set session then (ItemsSet, st1)
             else pollUntilSet b userId pickerSessionId start (sleep pollIntervalMs st1))
      else (LoopEnded, st))"
  by pat_completeness auto
termination
  by (relation "measure (\<lambda>(b, userId, pickerSessionId, start, st). start + timeoutMs - now st)")
    (auto simp: await_def sent_def sleep_def pollIntervalMs_def)

declare pollUntilSet.simps [simp del]

definition timeoutMessage :: Message where
  "timeoutMessage =
     \<lparr>role = Assistant,
      content = ''Selection timed out. Please open Google Photos again, complete your selection, and click \"I've finished selecting\" within a few minutes.'',
      metadata = None\<rparr>"

definition pickerErrorMessage :: "api_error \<Rightarrow> Message" where
  "pickerErrorMessage error =
     (let errMsg = error_text error;
          isPhotosUnauthorized = (error_status error = Some 401)
      in \<lparr>role = Assistant,
          content =
            (if isPhotosUnauthorized then errMsg
             else ''Sorry, something went wrong: '' @ errMsg
                  @ ''. You can try again or say \"skip\" to generate without references.''),
          metadata = (if isPhotosUnauthorized then reauthMetadata else None)\<rparr>)"

definition handlePickerFinished ::
  "backend \<Rightarrow> string \<Rightarrow> string \<Rightarrow> ChatInterface \<Rightarrow> ChatInterface" where
  "handlePickerFinished b userId pickerSessionId st =
     (case sessionId st of
        None \<Rightarrow> st
      | Some sid \<Rightarrow>
          if sid = [] \<or> userId = [] then st
          else
            (let st0 = st\<lparr>selectingReferences := False, loading := True\<rparr>;
                 start = now st0;
                 st4 =
                   (case pollUntilSet b userId pickerSessionId start st0 of
                      (ItemsSet, st1) \<Rightarrow>
                        (case await b (ListPickerMedia userId pickerSessionId)
                                (listPickerMedia b (now st1) userId pickerSessionId) st1 of
                           (Threw error, st2) \<Rightarrow>
                             st2\<lparr>messages := messages st2 @ [pickerErrorMessage error]\<rparr>
                         | (Returned media_items, st2) \<Rightarrow>
                             (let ids = map item_media_item_id media_items;
                                  urls = map the (filter truthy (map item_url media_items))
                              in case await b (StoreReferencePhotos userId sid ids urls)
                                        (storeReferencePhotos b (now st2) userId sid ids urls) st2 of
                                   (Threw error, st3) \<Rightarrow>
                                     st3\<lparr>messages := messages st3 @ [pickerErrorMessage error]\<rparr>
                                 | (Returned storeResponse, st3) \<Rightarrow>
                                     st3\<lparr>messages := messages st3 @
                                       [\<lparr>role = Assistant,
                                         content = or_else (message storeResponse)
                                           ''Here are your reference photos. Add any context below, then click Generate when ready.'',
                                         metadata = response_metadata storeResponse\<rparr>]\<rparr>))
                    | (LoopEnded, st1) \<Rightarrow> st1\<lparr>messages := messages st1 @ [timeoutMessage]\<rparr>
                    | (Caught error, st1) \<Rightarrow>
                        st1\<lparr>messages := messages st1 @ [pickerErrorMessage error]\<rparr>)
             in st4\<lparr>loading := False\<rparr>))"

text \<open>
  The polling effect.
  \<^verbatim>\<open>
  useEffect(() => {
    const pickerMsg = messages.find((m) => m.role === 'assistant' &&
      m.metadata?.stage === 'selecting_references' && m.metadata?.picker_session_id)
    const pickerSessionId = pickerMsg?.metadata?.picker_session_id as string | undefined
    if (!pickerSessionId || !userId || !sessionId || loading ||
        processedPickerSessionsRef.current.has(pickerSessionId)) return
    const pollIntervalMs = 3000
    const timeoutMs = 120000
    const start = Date.now()
    const poll = async () => {
      if (Date.now() - start > timeoutMs) return
      try {
        const session = await getPickerSession(userId, pickerSessionId)
        if (session.media_items_set) {
          processedPickerSessionsRef.current.add(pickerSessionId)
          handlePickerFinished(pickerSessionId)
        }
      } catch { // Ignore poll errors
      }
    }
    const id = setInterval(poll, pollIntervalMs)
    poll()
    return () => clearInterval(id)
  }, [messages, userId, sessionId, loading])\<close>
  \<open>effectPickerSessionId\<close> is the session the effect starts to poll, if any. \<open>poll\<close> is
  one call of \<^verbatim>\<open>poll\<close> followed to its end, the \<^verbatim>\<open>handlePickerFinished\<close> it calls
  included; its first component tells whether it called \<^verbatim>\<open>handlePickerFinished\<close>.
\<close>

definition isPickerMsg :: "Message \<Rightarrow> bool" where
  "isPickerMsg m =
     (role m = Assistant \<and>
      (case metadata m of
         None \<Rightarrow> False
       | Some md \<Rightarrow> stage md = Some ''selecting_references'' \<and> truthy (picker_session_id md)))"

definition effectPickerSessionId :: "string \<Rightarrow> ChatInterface \<Rightarrow> string option" where
  "effectPickerSessionId userId st =
     (case find isPickerMsg (messages st) of
        None \<Rightarrow> None
      | Some pickerMsg \<Rightarrow>
          (case metadata pickerMsg of
             None \<Rightarrow> None
           | Some md \<Rightarrow>
               (case picker_session_id md of
                  None \<Rightarrow> None
                | Some pickerSessionId \<Rightarrow>
                    if pickerSessionId = [] \<or> userId = [] \<or> \<not> truthy (sessionId st) \<or> loading st
                       \<or> set_has pickerSessionId (processedPickerSessions st)
                    then None
                    else Some pickerSessionId)))"

definition poll :: "backend \<Rightarrow> string \<Rightarrow> string \<Rightarrow> nat \<Rightarrow> ChatInterface \<Rightarrow> bool \<times> ChatInterface" where
  "poll b userId pickerSessionId start st =
     (if now st - start > timeoutMs then (False, st)
      else
        (case await b (GetPickerSession userId pickerSessionId)
                (getPickerSession b (now st) userId pickerSessionId) st of
           (Threw error, st1) \<Rightarrow> (False, st1)
         | (Returned session, st1) \<Rightarrow>
             if media_items_set session
             then (True,
                   handlePickerFinished b userId pickerSessionId
                     (st1\<lparr>processedPickerSessions :=
                            set_add pickerSessionId (processedPickerSessions st1)\<rparr>))
             else (False, st1)))"

text \<open>
  A polling run of the effect. \<^verbatim>\<open>poll()\<close> is called at once and then on every tick of
  \<^verbatim>\<open>setInterval(poll, pollIntervalMs)\<close>: tick \<open>k\<close> is at \<open>start + k * pollIntervalMs\<close> (the
  timer is taken to fire on time). \<^verbatim>\<open>poll\<close> is \<^verbatim>\<open>async\<close> and nothing awaits it, so a tick
  does not wait for the answer to an earlier request: the polls of a run overlap when a
  request takes longer than the interval. Only the effect's cleanup clears the interval, and
  React runs it when a dependency of the effect changes; with no other input that is when a
  poll has seen the items set and \<^verbatim>\<open>handlePickerFinished\<close>, whose guard on \<^verbatim>\<open>sessionId\<close>
  and \<^verbatim>\<open>userId\<close> is the effect's, has set \<^verbatim>\<open>loading\<close>, at the time the answer arrived. A tick at that time or later does not happen. A request sent before
  that time is still answered, nothing aborts it, and its poll goes on like any other. A
  poll called more than \<open>timeoutMs\<close> after the start returns at once, and so does every later
  one.

  \<open>pollTicks\<close> lists the ticks of a run whose poll sends a request, from tick \<open>k\<close> on;
  \<open>cleared\<close> is the earliest time at which an answer to an earlier request of the run has
  reported the items set.
\<close>

definition tickTime :: "nat \<Rightarrow> nat \<Rightarrow> nat" where
  "tickTime start k = start + k * pollIntervalMs"

definition seesItemsSet :: "backend \<Rightarrow> string \<Rightarrow> string \<Rightarrow> nat \<Rightarrow> bool" where
  "seesItemsSet b userId pickerSessionId t =
     (case getPickerSession b t userId pickerSessionId of
        Returned session \<Rightarrow> media_items_set session
      | Threw error \<Rightarrow> False)"

function pollTicks ::
  "backend \<Rightarrow> string \<Rightarrow> string \<Rightarrow> nat \<Rightarrow> nat \<Rightarrow> nat option \<Rightarrow> nat list" where
  "pollTicks b userId pickerSessionId start k cleared =
     (if timeoutMs < tickTime start k - start then []
      else if (case cleared of None \<Rightarrow> False | Some c \<Rightarrow> c \<le> tickTime start k) then []
      else
        (let answered = tickTime start k + latency b (tickTime start k);
             cleared' =
               (if seesItemsSet b userId pickerSessionId (tickTime start k)
                then Some (case cleared of None \<Rightarrow> answered | Some c \<Rightarrow> min c answered)
                else cleared)
         in k # pollTicks b userId pickerSessionId start (Suc k) cleared'))"
  by pat_completeness auto
termination
  by (relation "measure (\<lambda>(b, userId, pickerSessionId, start, k, cleared).
                  timeoutMs + pollIntervalMs - k * pollIntervalMs)")
    (auto simp: tickTime_def pollIntervalMs_def timeoutMs_def)

declare pollTicks.simps [simp del]

text \<open>
  The effect after a render. When it finds a session to poll it starts a run, and the state
  returned is the one reached when every request of the run has been answered and every
  \<^verbatim>\<open>handlePickerFinished\<close> called by a poll has ended (with no other input meanwhile).
  \<open>pollAt\<close> is the poll of tick \<open>k\<close>, from its call to its end. What a poll reads of the
  state (\<^verbatim>\<open>userId\<close>, \<^verbatim>\<open>sessionId\<close>) no poll changes, and it writes with
  \<^verbatim>\<open>setMessages((prev) => [...prev, m])\<close>, \<^verbatim>\<open>setLoading\<close>, \<^verbatim>\<open>setSelectingReferences(false)\<close>
  and \<^verbatim>\<open>Set.add\<close>; so the polls of a run, overlapping or not, add up: the requests of all
  of them in the order they were sent, their messages in the order the polls ended, the
  picker session in the processed set when a poll saw the items set.
\<close>

definition pollAt ::
  "backend \<Rightarrow> string \<Rightarrow> string \<Rightarrow> ChatInterface \<Rightarrow> nat \<Rightarrow> bool \<times> ChatInterface" where
  "pollAt b userId pickerSessionId st k =
     poll b userId pickerSessionId (now st) (st\<lparr>now := tickTime (now st) k\<rparr>)"

definition pickerEffect :: "backend \<Rightarrow> string \<Rightarrow> ChatInterface \<Rightarrow> ChatInterface" where
  "pickerEffect b userId st =
     (case effectPickerSessionId userId st of
        None \<Rightarrow> st
      | Some pickerSessionId \<Rightarrow>
          (let polls = map (pollAt b userId pickerSessionId st)
                         (pollTicks b userId pickerSessionId (now st) 0 None);
               ended = sort_key now (map snd polls);
               finished = list_ex fst polls
           in st\<lparr>messages :=
                   messages st @ concat (map (\<lambda>s. drop (length (messages st)) (messages s)) ended),
                 calls :=
                   calls st @ sort_key fst
                     (concat (map (\<lambda>s. drop (length (calls st)) (calls s)) (map snd polls))),
                 processedPickerSessions :=
                   (if finished then set_add pickerSessionId (processedPickerSessions st)
                    else processedPickerSessions st),
                 selectingReferences := (if finished then False else selectingReferences st),
                 loading := (if finished then False else loading st),
                 now := fold max (map now ended) (now st)\<rparr>))"

text \<open>
  The picker controls of a message (\<^verbatim>\<open>Check selection\<close>, whose \<^verbatim>\<open>onClick\<close> is
  \<^verbatim>\<open>handlePickerFinished(message.metadata.picker_session_id)\<close>, and \<^verbatim>\<open>Skip\<close>, whose
  \<^verbatim>\<open>onClick\<close> is \<^verbatim>\<open>handleSkipReferences\<close>) are rendered when
  \<^verbatim>\<open>message.metadata?.stage === 'selecting_references' && message.metadata?.picker_uri &&
  message.metadata?.picker_session_id\<close>; both buttons are \<^verbatim>\<open>disabled={loading}\<close>.
\<close>

definition showsPickerControls :: "Message \<Rightarrow> bool" where
  "showsPickerControls m =
     (case metadata m of
        None \<Rightarrow> False
      | Some md \<Rightarrow>
          stage md = Some ''selecting_references'' \<and> truthy (picker_uri md)
          \<and> truthy (picker_session_id md))"

definition pickerButtonsEnabled :: "ChatInterface \<Rightarrow> Message \<Rightarrow> bool" where
  "pickerButtonsEnabled st m = (m \<in> set (messages st) \<and> showsPickerControls m \<and> \<not> loading st)"

definition clickCheckSelection :: "backend \<Rightarrow> string \<Rightarrow> Message \<Rightarrow> ChatInterface \<Rightarrow> ChatInterface" where
  "clickCheckSelection b userId m st =
     (if pickerButtonsEnabled st m
      then (case metadata m of
              None \<Rightarrow> st
            | Some md \<Rightarrow>
                (case picker_session_id md of
                   None \<Rightarrow> st
                 | Some pickerSessionId \<Rightarrow> handlePickerFinished b userId pickerSessionId st))
      else st)"



text \<open>\<^verbatim>\<open>m.metadata?.stage\<close> and \<^verbatim>\<open>response.metadata?.stage\<close>.\<close>

definition stageOf :: "Message \<Rightarrow> string option" where
  "stageOf m = (case metadata m of None \<Rightarrow> None | Some md \<Rightarrow> stage md)"


subsection \<open>Back-end components that are not among the sources\<close>

text \<open>
  Modelled from the spec: the Token Budget Governor of the back end (section 4.4; the
  Python back end is not under \<^verbatim>\<open>src/\<close>). It keeps a running total per session and per
  user and day, and has a ceiling for each. \<^verbatim>\<open>check\<close> answers \<^verbatim>\<open>exceeded\<close> once a total has
  reached its ceiling, \<^verbatim>\<open>warn\<close> from 80% of a ceiling on, and \<^verbatim>\<open>ok\<close> otherwise;
  \<^verbatim>\<open>record\<close> adds the tokens of one agent call to both totals; a day boundary resets the
  user's daily total to zero (section 3).
\<close>

datatype budget_check = Ok | Warn | Exceeded

record governor =
  session_ceiling :: nat
  daily_ceiling :: nat
  session_total :: "string \<Rightarrow> nat"
  daily_total :: "string \<Rightarrow> nat"

definition governorCheck :: "governor \<Rightarrow> string \<Rightarrow> string \<Rightarrow> budget_check" where
  "governorCheck g user_id session_id =
     (if daily_ceiling g \<le> daily_total g user_id
         \<or> session_ceiling g \<le> session_total g session_id then Exceeded
      else if 8 * daily_ceiling g \<le> 10 * daily_total g user_id
         \<or> 8 * session_ceiling g \<le> 10 * session_total g session_id then Warn
      else Ok)"

definition governorRecord :: "governor \<Rightarrow> string \<Rightarrow> string \<Rightarrow> nat \<Rightarrow> governor" where
  "governorRecord g user_id session_id tokens =
     g\<lparr>session_total := (session_total g)(session_id := session_total g session_id + tokens),
       daily_total := (daily_total g)(user_id := daily_total g user_id + tokens)\<rparr>"

definition dayBoundary :: "governor \<Rightarrow> string \<Rightarrow> governor" where
  "dayBoundary g user_id = g\<lparr>daily_total := (daily_total g)(user_id := 0)\<rparr>"

text \<open>
  Modelled from the spec: the orchestrator's \<^verbatim>\<open>GenerateFromReferences\<close> (sections 4.1, 4.4,
  6 and 7; not under \<^verbatim>\<open>src/\<close>). The session holds its stage and what the stages before
  have gathered. The collaborators are the screener (content in, approve or deny out) and
  the generation service (prompt and reference images in, an artifact out, or a failure),
  each with the tokens one call consumes. The budget check runs before each of the two
  external calls; \<^verbatim>\<open>exceeded\<close> ends the action with \<^verbatim>\<open>BudgetExceeded\<close> and leaves the
  session as it is. A denial ends in \<^verbatim>\<open>policy_violation\<close>, a failed generation in
  \<^verbatim>\<open>failed\<close>.
\<close>

record session =
  session_id :: string
  user_id :: string
  session_stage :: string
  what_happened :: string
  references :: "string list"

datatype external_call = ScreenerCall string | GenerationCall string "string list"

datatype generate_result = Generated string | BudgetExceeded | PolicyViolation | UnexpectedFailure

record collaborators =
  screener :: "string \<Rightarrow> bool"
  screener_tokens :: nat
  generator :: "string \<Rightarrow> string list \<Rightarrow> string option"
  generator_tokens :: nat

definition orchestratorGenerate ::
  "collaborators \<Rightarrow> governor \<Rightarrow> session \<Rightarrow> string option
     \<Rightarrow> generate_result \<times> session \<times> governor \<times> external_call list" where
  "orchestratorGenerate c g s additional_context =
     (let prompt = what_happened s @ (case additional_context of None \<Rightarrow> [] | Some x \<Rightarrow> x)
      in if governorCheck g (user_id s) (session_id s) = Exceeded
         then (BudgetExceeded, s, g, [])
         else
           (let g1 = governorRecord g (user_id s) (session_id s) (screener_tokens c);
                s1 = s\<lparr>session_stage := ''screening''\<rparr>
            in if \<not> screener c prompt
               then (PolicyViolation, s1\<lparr>session_stage := ''policy_violation''\<rparr>, g1,
                     [ScreenerCall prompt])
               else if governorCheck g1 (user_id s) (session_id s) = Exceeded
               then (BudgetExceeded, s1, g1, [ScreenerCall prompt])
               else
                 (let g2 = governorRecord g1 (user_id s) (session_id s) (generator_tokens c);
                      s2 = s1\<lparr>session_stage := ''generating''\<rparr>;
                      sent_calls = [ScreenerCall prompt, GenerationCall prompt (references s)]
                  in case generator c prompt (references s) of
                       None \<Rightarrow> (UnexpectedFailure, s2\<lparr>session_stage := ''failed''\<rparr>, g2, sent_calls)
                     | Some artifact \<Rightarrow>
                         (Generated artifact, s2\<lparr>session_stage := ''completed''\<rparr>, g2, sent_calls))))"

text \<open>
  Modelled from the spec: the search strategy of the Reference Photo Acquisition (section
  4.3; not under \<^verbatim>\<open>src/\<close>). Times are days. The photo service answers a query with photos or
  fails, after some milliseconds; a query that takes longer than the timeout, or fails,
  contributes nothing, and what a query contributes is capped. The date-window query is
  always issued, the content query when people or pets were extracted. The contributions
  are merged in order, a photo whose id was seen before is dropped, and the merged list is
  capped. With no photo the flow goes where a skip goes (section 4.1: to
  \<^verbatim>\<open>confirm_generation\<close>), otherwise to the selection.
\<close>

datatype photo_query = DateQuery int int | ContentQuery "string list" "string list"

datatype query_answer = Photos "ReferencePhoto list" | QueryFailed

record photo_service =
  answer :: "photo_query \<Rightarrow> query_answer"
  duration :: "photo_query \<Rightarrow> nat"

definition windowDays :: int where
  "windowDays = 14"

definition searchTimeoutMs :: nat where
  "searchTimeoutMs = 10000"

definition perQueryCap :: nat where
  "perQueryCap = 5"

definition overallCap :: nat where
  "overallCap = 8"

definition searchQueries :: "int \<Rightarrow> string list \<Rightarrow> string list \<Rightarrow> photo_query list" where
  "searchQueries when_day who_people who_pets =
     DateQuery (when_day - windowDays) (when_day + windowDays)
     # (if who_people \<noteq> [] \<or> who_pets \<noteq> [] then [ContentQuery who_people who_pets] else [])"

definition boundedQuery :: "photo_service \<Rightarrow> photo_query \<Rightarrow> ReferencePhoto list" where
  "boundedQuery svc q =
     (if searchTimeoutMs < duration svc q then []
      else (case answer svc q of
              Photos ps \<Rightarrow> take perQueryCap ps
            | QueryFailed \<Rightarrow> []))"

fun dedupeById :: "string list \<Rightarrow> ReferencePhoto list \<Rightarrow> ReferencePhoto list" where
  "dedupeById seen [] = []"
| "dedupeById seen (p # ps) =
     (if media_item_id p \<in> set seen then dedupeById seen ps
      else p # dedupeById (media_item_id p # seen) ps)"

definition searchReferencePhotos ::
  "photo_service \<Rightarrow> int \<Rightarrow> string list \<Rightarrow> string list \<Rightarrow> ReferencePhoto list" where
  "searchReferencePhotos svc when_day who_people who_pets =
     take overallCap
       (dedupeById [] (concat (map (boundedQuery svc) (searchQueries when_day who_people who_pets))))"

definition stageAfterSkip :: string where
  "stageAfterSkip = ''confirm_generation''"

definition stageAfterSearch :: "ReferencePhoto list \<Rightarrow> string" where
  "stageAfterSearch photos = (if photos = [] then stageAfterSkip else ''selecting_references'')"

text \<open>
  Modelled from the spec: what the orchestrator does with a skip directive (sections 4.1 and
  8, Scenario B; not under \<^verbatim>\<open>src/\<close>). The photo-related stages are the stages of the
  reference-photo acquisition. A skip is accepted in each of them: it routes the session to
  \<^verbatim>\<open>confirm_generation\<close> and records no call to the photo service. In another stage there
  is no skip directive.
\<close>

datatype photo_service_call =
    SearchCall photo_query
  | CreatePickerCall
  | PickerStatusCall string
  | PickerMediaCall string



subsection \<open>Concrete sessions and back ends used in the examples\<close>

text \<open>
  A picker message as the back end sends it, and a session that shows it and waits for the
  selection.
\<close>

definition pickerMessage :: Message where
  "pickerMessage =
     \<lparr>role = Assistant,
      content = ''Choose your reference photos in Google Photos.'',
      metadata = Some \<lparr>stage = Some ''selecting_references'',
                        picker_uri = Some ''https://photos.example/picker/p1'',
                        picker_session_id = Some ''picker-1'',
                        requires_reauth = False\<rparr>\<rparr>"

definition waitingState :: ChatInterface where
  "waitingState =
     \<lparr>messages = [pickerMessage], input = [], loading = False,
      sessionId = Some ''session-1'', selectingReferences = True, photoContext = [],
      processedPickerSessions = [], now = 0, calls = []\<rparr>"

definition stageOnly :: "string \<Rightarrow> Metadata option" where
  "stageOnly s =
     Some \<lparr>stage = Some s, picker_uri = None, picker_session_id = None, requires_reauth = False\<rparr>"

text \<open>
  A back end whose picker session has its items set (the user has finished picking one
  photo), one whose picker session never has, and one whose status request fails. Every
  request takes 200 ms.
\<close>

definition pickedBackend :: backend where
  "pickedBackend =
     \<lparr>sendMessage = (\<lambda>t u s x.
        Returned \<lparr>message = ''Got it! Ready to generate your memory image?'',
                  response_metadata = stageOnly ''confirm_generation''\<rparr>),
      selectReferencePhotos = (\<lambda>t u s ids.
        Returned \<lparr>message = ''Ready to generate your memory?'',
                  response_metadata = stageOnly ''confirm_generation''\<rparr>),
      storeReferencePhotos = (\<lambda>t u s ids urls.
        Returned \<lparr>message = [], response_metadata = stageOnly ''ready_to_generate''\<rparr>),
      generateFromReferences = (\<lambda>t u s c.
        Returned \<lparr>message = [], response_metadata = stageOnly ''completed''\<rparr>),
      getPickerSession = (\<lambda>t u p. Returned \<lparr>media_items_set = True\<rparr>),
      listPickerMedia = (\<lambda>t u p.
        Returned [\<lparr>item_media_item_id = ''photo-1'',
                   item_url = Some ''https://photos.example/1''\<rparr>]),
      latency = (\<lambda>t. 200),
      trim = (\<lambda>s. s)\<rparr>"


definition failingBackend :: backend where
  "failingBackend =
     pickedBackend\<lparr>getPickerSession :=
       (\<lambda>t u p. Threw \<lparr>error_status = None, error_text = ''Failed to fetch''\<rparr>)\<rparr>"

text \<open>
  A back end whose status request fails after hanging for 130 seconds, and one whose picker
  session has its items set while every request takes 5 seconds.
\<close>

definition hangingBackend :: backend where
  "hangingBackend = failingBackend\<lparr>latency := (\<lambda>t. 130000)\<rparr>"

definition slowPickedBackend :: backend where
  "slowPickedBackend = pickedBackend\<lparr>latency := (\<lambda>t. 5000)\<rparr>"


text \<open>
  For the components modelled from the spec: a governor whose user has used up the day's
  50000 tokens, a session waiting for the confirmed generation, collaborators that approve
  and generate, a photo service whose date query takes 20 seconds, and one whose queries
  all fail.
\<close>

definition spentGovernor :: governor where
  "spentGovernor =
     \<lparr>session_ceiling = 15000, daily_ceiling = 50000,
      session_total = (\<lambda>s. 0), daily_total = (\<lambda>u. 50000)\<rparr>"

definition confirmedSession :: session where
  "confirmedSession =
     \<lparr>session_id = ''session-1'', user_id = ''user-1'', session_stage = ''confirm_generation'',
      what_happened = ''The ceremony at sunset'', references = [''photo-1'']\<rparr>"

definition approvingCollaborators :: collaborators where
  "approvingCollaborators =
     \<lparr>screener = (\<lambda>x. True), screener_tokens = 300,
      generator = (\<lambda>x refs. Some ''memory_user-1_1.jpg''), generator_tokens = 2000\<rparr>"

definition examplePhoto :: "string \<Rightarrow> ReferencePhoto" where
  "examplePhoto i =
     \<lparr>media_item_id = i, thumbnail_url = [], url = [], creation_time = None, description = None\<rparr>"

definition slowDateService :: photo_service where
  "slowDateService =
     \<lparr>answer = (\<lambda>q. case q of
                      DateQuery a b \<Rightarrow> Photos [examplePhoto ''a'']
                    | ContentQuery ps qs \<Rightarrow>
                        Photos [examplePhoto ''b'', examplePhoto ''c'', examplePhoto ''b'']),
      duration = (\<lambda>q. case q of DateQuery a b \<Rightarrow> 20000 | ContentQuery ps qs \<Rightarrow> 300)\<rparr>"

definition failingService :: photo_service where
  "failingService = \<lparr>answer = (\<lambda>q. QueryFailed), duration = (\<lambda>q. 300)\<rparr>"



text \<open>
  A photo service whose date query returns six photos and whose content query returns five,
  one of which the date query returned too.
\<close>

definition busyService :: photo_service where
  "busyService =
     \<lparr>answer = (\<lambda>q. case q of
                      DateQuery a b \<Rightarrow>
                        Photos (map examplePhoto [''a'', ''b'', ''c'', ''d'', ''e'', ''f''])
                    | ContentQuery ps qs \<Rightarrow>
                        Photos (map examplePhoto [''e'', ''g'', ''h'', ''i'', ''j''])),
      duration = (\<lambda>q. 300)\<rparr>"

section \<open>Properties\<close>

subsection \<open>Helper lemmas\<close>

lemma js_split_nonempty: "js_split c s \<noteq> []"
  by (induction s) (auto split: list.splits)

lemma js_split_no_separator: "c \<notin> set s \<Longrightarrow> js_split c s = [s]"
  by (induction s) auto

lemma js_split_separator: "c \<in> set s \<Longrightarrow> tl (js_split c s) \<noteq> []"
  by (induction s) (auto simp: js_split_nonempty split: list.splits)

lemma last_js_split_Cons:
  "last (js_split c (x # xs)) =
     (if c \<in> set xs then last (js_split c xs) else if x = c then xs else x # xs)"
proof (cases "c \<in> set xs")
  case True
  then obtain p q qs where "js_split c xs = p # q # qs"
    using js_split_separator [of c xs] js_split_nonempty [of c xs]
    by (cases "js_split c xs"; cases "tl (js_split c xs)") auto
  with True show ?thesis by simp
next
  case False
  then show ?thesis by (simp add: js_split_no_separator)
qed

text \<open>The last piece of a split is what follows the last separator.\<close>

lemma last_js_split: "last (js_split c s) = rev (takeWhile (\<lambda>x. x \<noteq> c) (rev s))"
proof (induction s)
  case Nil
  show ?case by simp
next
  case (Cons x xs)
  show ?case
  proof (cases "c \<in> set xs")
    case True
    then have "takeWhile (\<lambda>y. y \<noteq> c) (rev xs @ [x]) = takeWhile (\<lambda>y. y \<noteq> c) (rev xs)"
      by (simp add: takeWhile_append1)
    with True Cons.IH show ?thesis
      by (simp only: last_js_split_Cons rev.simps if_True)
  next
    case False
    then have all: "\<forall>y \<in> set (rev xs). y \<noteq> c"
      by auto
    have tw: "takeWhile (\<lambda>y. y \<noteq> c) (rev xs @ [x]) = rev xs @ takeWhile (\<lambda>y. y \<noteq> c) [x]"
      using all by (intro takeWhile_append2) blast
    have "last (js_split c (x # xs)) = (if x = c then xs else x # xs)"
      using False by (simp only: last_js_split_Cons if_False)
    moreover have "rev (takeWhile (\<lambda>y. y \<noteq> c) (rev (x # xs))) = (if x = c then xs else x # xs)"
      unfolding rev.simps tw by simp
    ultimately show ?thesis by simp
  qed
qed

lemma getImageFilenameFromUrl_path:
  assumes "u \<noteq> []" and "url_pathname u = Some path"
  shows "getImageFilenameFromUrl url_pathname (Some u) =
           (let seg = rev (takeWhile (\<lambda>x. x \<noteq> CHR ''/'') (rev path))
            in if CHR ''.'' \<in> set seg then Some seg else None)"
proof -
  define segments where "segments = js_split CHR ''/'' path"
  have ne: "segments \<noteq> []"
    unfolding segments_def by (rule js_split_nonempty)
  then have lt: "length segments - 1 < length segments"
    by (cases segments) auto
  have idx: "segments ! (length segments - 1) = rev (takeWhile (\<lambda>x. x \<noteq> CHR ''/'') (rev path))"
    using ne last_js_split [of "CHR ''/''" path]
    by (simp add: last_conv_nth segments_def)
  have "getImageFilenameFromUrl url_pathname (Some u) =
          (let l = segments ! (length segments - 1)
           in if l \<noteq> [] \<and> CHR ''.'' \<in> set l then Some l else None)"
    using assms lt
    by (simp add: getImageFilenameFromUrl_def Let_def segments_def del: One_nat_def)
  also have "\<dots> = (let seg = rev (takeWhile (\<lambda>x. x \<noteq> CHR ''/'') (rev path))
            in if CHR ''.'' \<in> set seg then Some seg else None)"
    unfolding idx Let_def by auto
  finally show ?thesis .
qed

lemma final_segment_suffix:
  "\<exists>pre. path = pre @ rev (takeWhile (\<lambda>x. x \<noteq> c) (rev path)) \<and> (pre = [] \<or> last pre = c)"
proof -
  let ?P = "\<lambda>x. x \<noteq> c"
  have "rev (takeWhile ?P (rev path) @ dropWhile ?P (rev path)) = path"
    by simp
  then have eq: "path = rev (dropWhile ?P (rev path)) @ rev (takeWhile ?P (rev path))"
    by (simp only: rev_append)
  have "rev (dropWhile ?P (rev path)) = [] \<or> last (rev (dropWhile ?P (rev path))) = c"
  proof (cases "dropWhile ?P (rev path)")
    case Nil
    then show ?thesis by simp
  next
    case (Cons y ys)
    have "\<not> ?P (hd (dropWhile ?P (rev path)))"
      by (rule hd_dropWhile) (simp add: Cons)
    with Cons show ?thesis by simp
  qed
  with eq show ?thesis by blast
qed

lemma togglePhoto_set:
  "set (togglePhoto p sel) = (if p \<in> set sel then set sel - {p} else insert p (set sel))"
  by (auto simp: togglePhoto_def set_has_def set_add_def set_delete_def Let_def)

lemma togglePhoto_distinct: "distinct sel \<Longrightarrow> distinct (togglePhoto p sel)"
  by (auto simp: togglePhoto_def set_has_def set_add_def set_delete_def Let_def)

lemma clickPhoto_displayed:
  "set sel \<subseteq> set (map media_item_id photos) \<Longrightarrow>
   set (clickPhoto photos busy sel i) \<subseteq> set (map media_item_id photos)"
  by (auto simp: clickPhoto_def togglePhoto_set)

lemma foldl_clickPhoto_displayed:
  "set sel \<subseteq> set (map media_item_id photos) \<Longrightarrow>
   set (foldl (clickPhoto photos busy) sel clicks) \<subseteq> set (map media_item_id photos)"
proof (induction clicks arbitrary: sel)
  case Nil
  then show ?case by simp
next
  case (Cons i clicks)
  from Cons.prems have "set (clickPhoto photos busy sel i) \<subseteq> set (map media_item_id photos)"
    by (rule clickPhoto_displayed)
  then show ?case
    using Cons.IH by simp
qed

subsection \<open>The polling loop of handlePickerFinished\<close>

lemma sent_simps:
  "now (sent b c st) = now st + latency b (now st)"
  "calls (sent b c st) = calls st @ [(now st, c)]"
  "messages (sent b c st) = messages st"
  "input (sent b c st) = input st"
  "loading (sent b c st) = loading st"
  "sessionId (sent b c st) = sessionId st"
  "selectingReferences (sent b c st) = selectingReferences st"
  "photoContext (sent b c st) = photoContext st"
  "processedPickerSessions (sent b c st) = processedPickerSessions st"
  by (simp_all add: sent_def)

lemma sleep_simps:
  "now (sleep ms st) = now st + ms"
  "calls (sleep ms st) = calls st"
  "messages (sleep ms st) = messages st"
  "input (sleep ms st) = input st"
  "loading (sleep ms st) = loading st"
  "sessionId (sleep ms st) = sessionId st"
  "selectingReferences (sleep ms st) = selectingReferences st"
  "photoContext (sleep ms st) = photoContext st"
  "processedPickerSessions (sleep ms st) = processedPickerSessions st"
  by (simp_all add: sleep_def)

lemma pollUntilSet_ended:
  "\<not> now st - start < timeoutMs \<Longrightarrow> pollUntilSet b u p start st = (LoopEnded, st)"
  by (subst pollUntilSet.simps) simp

lemma pollUntilSet_threw:
  "now st - start < timeoutMs \<Longrightarrow> getPickerSession b (now st) u p = Threw e \<Longrightarrow>
   pollUntilSet b u p start st = (Caught e, sent b (GetPickerSession u p) st)"
  by (subst pollUntilSet.simps) (simp add: await_def)

lemma pollUntilSet_set:
  "now st - start < timeoutMs \<Longrightarrow> getPickerSession b (now st) u p = Returned s \<Longrightarrow>
   media_items_set s \<Longrightarrow>
   pollUntilSet b u p start st = (ItemsSet, sent b (GetPickerSession u p) st)"
  by (subst pollUntilSet.simps) (simp add: await_def)

lemma pollUntilSet_again:
  "now st - start < timeoutMs \<Longrightarrow> getPickerSession b (now st) u p = Returned s \<Longrightarrow>
   \<not> media_items_set s \<Longrightarrow>
   pollUntilSet b u p start st =
     pollUntilSet b u p start (sleep pollIntervalMs (sent b (GetPickerSession u p) st))"
  by (subst pollUntilSet.simps) (simp add: await_def)

text \<open>What the loop leaves alone and what it sends.\<close>

lemma pollUntilSet_frame:
  "\<exists>t cs. snd (pollUntilSet b u p start st) = st\<lparr>now := t, calls := calls st @ cs\<rparr>
          \<and> now st \<le> t
          \<and> (\<forall>x \<in> set cs. snd x = GetPickerSession u p \<and> now st \<le> fst x
                           \<and> fst x - start < timeoutMs)
          \<and> sorted_wrt (\<lambda>x y. fst x + pollIntervalMs \<le> fst y) cs"
proof (induction b u p start st rule: pollUntilSet.induct)
  case (1 b u p start st)
  let ?c = "GetPickerSession u p"
  show ?case
  proof (cases "now st - start < timeoutMs")
    case False
    then have "snd (pollUntilSet b u p start st) = st\<lparr>now := now st, calls := calls st @ []\<rparr>"
      using pollUntilSet_ended [of st start b u p] by simp
    then show ?thesis by (intro exI [of _ "now st"] exI [of _ "[]"]) simp
  next
    case within: True
    have one: "sent b ?c st = st\<lparr>now := now st + latency b (now st),
                                  calls := calls st @ [(now st, ?c)]\<rparr>"
      by (simp add: sent_def)
    show ?thesis
    proof (cases "getPickerSession b (now st) u p")
      case (Threw e)
      have "snd (pollUntilSet b u p start st) = sent b ?c st"
        using pollUntilSet_threw [OF within Threw] by simp
      then show ?thesis
        using within unfolding one
        by (intro exI [of _ "now st + latency b (now st)"] exI [of _ "[(now st, ?c)]"]) simp
    next
      case (Returned s)
      show ?thesis
      proof (cases "media_items_set s")
        case True
        have "snd (pollUntilSet b u p start st) = sent b ?c st"
          using pollUntilSet_set [OF within Returned True] by simp
        then show ?thesis
          using within unfolding one
          by (intro exI [of _ "now st + latency b (now st)"] exI [of _ "[(now st, ?c)]"]) simp
      next
        case False
        let ?st2 = "sleep pollIntervalMs (sent b ?c st)"
        have aw: "await b ?c (getPickerSession b (now st) u p) st = (Returned s, sent b ?c st)"
          using Returned by (simp add: await_def)
        from "1.IH" [OF within aw [symmetric] refl False]
        obtain t cs where
          ih: "snd (pollUntilSet b u p start ?st2) = ?st2\<lparr>now := t, calls := calls ?st2 @ cs\<rparr>"
            "now ?st2 \<le> t"
            "\<forall>x \<in> set cs. snd x = GetPickerSession u p \<and> now ?st2 \<le> fst x
                           \<and> fst x - start < timeoutMs"
            "sorted_wrt (\<lambda>x y. fst x + pollIntervalMs \<le> fst y) cs"
          by blast
        have eq: "pollUntilSet b u p start st = pollUntilSet b u p start ?st2"
          by (rule pollUntilSet_again [OF within Returned False])
        have "snd (pollUntilSet b u p start st)
                = st\<lparr>now := t, calls := calls st @ ((now st, ?c) # cs)\<rparr>"
          unfolding eq ih(1) by (simp add: sleep_def sent_def)
        moreover have "now st \<le> t" using ih(2) by (simp add: sleep_simps sent_simps)
        moreover have "\<forall>x \<in> set ((now st, ?c) # cs).
            snd x = ?c \<and> now st \<le> fst x \<and> fst x - start < timeoutMs"
          using ih(3) within by (auto simp: sleep_simps sent_simps)
        moreover have "sorted_wrt (\<lambda>x y. fst x + pollIntervalMs \<le> fst y) ((now st, ?c) # cs)"
          using ih(3) ih(4) by (auto simp: sleep_simps sent_simps)
        ultimately show ?thesis by blast
      qed
    qed
  qed
qed


text \<open>A loop that starts now sends its first status request now.\<close>

lemma pollUntilSet_first_call:
  "\<exists>rest. calls (snd (pollUntilSet b u p (now st) st))
           = calls st @ (now st, GetPickerSession u p) # rest"
proof -
  let ?c = "GetPickerSession u p"
  have within: "now st - now st < timeoutMs"
    by (simp add: timeoutMs_def)
  show ?thesis
  proof (cases "getPickerSession b (now st) u p")
    case (Threw e)
    show ?thesis
      by (simp add: pollUntilSet_threw [OF within Threw] sent_simps)
  next
    case (Returned s)
    show ?thesis
    proof (cases "media_items_set s")
      case True
      show ?thesis
        by (simp add: pollUntilSet_set [OF within Returned True] sent_simps)
    next
      case False
      let ?st2 = "sleep pollIntervalMs (sent b ?c st)"
      obtain t cs where
        "snd (pollUntilSet b u p (now st) ?st2) = ?st2\<lparr>now := t, calls := calls ?st2 @ cs\<rparr>"
        using pollUntilSet_frame [of b u p "now st" ?st2] by blast
      then have "calls (snd (pollUntilSet b u p (now st) st)) = calls st @ (now st, ?c) # cs"
        by (simp add: pollUntilSet_again [OF within Returned False] sleep_simps sent_simps)
      then show ?thesis by blast
    qed
  qed
qed

subsection \<open>Single steps of the handlers\<close>

lemma pickedBackend_simps:
  "getPickerSession pickedBackend t u p = Returned \<lparr>media_items_set = True\<rparr>"
  "listPickerMedia pickedBackend t u p =
     Returned [\<lparr>item_media_item_id = ''photo-1'', item_url = Some ''https://photos.example/1''\<rparr>]"
  "storeReferencePhotos pickedBackend t u s ids urls =
     Returned \<lparr>message = [], response_metadata = stageOnly ''ready_to_generate''\<rparr>"
  "selectReferencePhotos pickedBackend t u s ids =
     Returned \<lparr>message = ''Ready to generate your memory?'',
               response_metadata = stageOnly ''confirm_generation''\<rparr>"
  "latency pickedBackend t = 200"
  by (simp_all add: pickedBackend_def)

lemma handlePickerFinished_stores:
  assumes sid: "sessionId st = Some sid" "sid \<noteq> []" "u \<noteq> []"
    and picked: "getPickerSession b (now st) u p = Returned s" "media_items_set s"
    and listed: "listPickerMedia b (now st + latency b (now st)) u p = Returned items"
    and stored: "storeReferencePhotos b
                   (now st + latency b (now st) + latency b (now st + latency b (now st))) u sid
                   (map item_media_item_id items) (map the (filter truthy (map item_url items)))
                 = Returned r"
  shows "handlePickerFinished b u p st =
           (sent b (StoreReferencePhotos u sid (map item_media_item_id items)
                      (map the (filter truthy (map item_url items))))
             (sent b (ListPickerMedia u p)
               (sent b (GetPickerSession u p)
                 (st\<lparr>selectingReferences := False, loading := True\<rparr>))))
           \<lparr>messages := messages st @
              [\<lparr>role = Assistant,
                content = or_else (message r)
                  ''Here are your reference photos. Add any context below, then click Generate when ready.'',
                metadata = response_metadata r\<rparr>],
            loading := False\<rparr>"
proof -
  let ?st0 = "st\<lparr>selectingReferences := False, loading := True\<rparr>"
  have within: "now ?st0 - now ?st0 < timeoutMs"
    by (simp add: timeoutMs_def)
  have p0: "getPickerSession b (now ?st0) u p = Returned s"
    using picked by simp
  have loop: "pollUntilSet b u p (now st) ?st0 = (ItemsSet, sent b (GetPickerSession u p) ?st0)"
    using pollUntilSet_set [OF within p0 picked(2)] by simp
  show ?thesis
    using sid listed stored
    by (simp add: handlePickerFinished_def Let_def loop await_def sent_simps)
qed



lemma poll_threw:
  "\<not> timeoutMs < now st - start \<Longrightarrow> getPickerSession b (now st) u p = Threw e \<Longrightarrow>
   poll b u p start st = (False, sent b (GetPickerSession u p) st)"
  by (simp add: poll_def await_def)

lemma poll_not_set:
  "\<not> timeoutMs < now st - start \<Longrightarrow> getPickerSession b (now st) u p = Returned s \<Longrightarrow>
   \<not> media_items_set s \<Longrightarrow>
   poll b u p start st = (False, sent b (GetPickerSession u p) st)"
  by (simp add: poll_def await_def)

lemma poll_set:
  "\<not> timeoutMs < now st - start \<Longrightarrow> getPickerSession b (now st) u p = Returned s \<Longrightarrow>
   media_items_set s \<Longrightarrow>
   poll b u p start st =
     (True, handlePickerFinished b u p
        ((sent b (GetPickerSession u p) st)
           \<lparr>processedPickerSessions := set_add p (processedPickerSessions st)\<rparr>))"
  by (simp add: poll_def await_def sent_simps)

lemma waitingState_simps:
  "messages waitingState = [pickerMessage]"
  "loading waitingState = False"
  "sessionId waitingState = Some ''session-1''"
  "processedPickerSessions waitingState = []"
  "now waitingState = 0"
  "calls waitingState = []"
  by (simp_all add: waitingState_def)

lemma pickerMessage_simps:
  "isPickerMsg pickerMessage"
  "showsPickerControls pickerMessage"
  "metadata pickerMessage = Some \<lparr>stage = Some ''selecting_references'',
                        picker_uri = Some ''https://photos.example/picker/p1'',
                        picker_session_id = Some ''picker-1'',
                        requires_reauth = False\<rparr>"
  by (simp_all add: pickerMessage_def isPickerMsg_def showsPickerControls_def truthy_def)


lemma failingBackend_simps:
  "getPickerSession failingBackend t u p = Threw \<lparr>error_status = None, error_text = ''Failed to fetch''\<rparr>"
  "latency failingBackend t = 200"
  by (simp_all add: failingBackend_def pickedBackend_def)


lemma handlePickerFinished_idle:
  "sessionId st = None \<or> sessionId st = Some [] \<or> u = [] \<Longrightarrow>
   handlePickerFinished b u p st = st"
  by (auto simp: handlePickerFinished_def split: option.splits)


text \<open>The requests already sent stay; a run with a session sends a status request first.\<close>

lemma handlePickerFinished_first_call:
  assumes sid: "sessionId st = Some sid" "sid \<noteq> []" "u \<noteq> []"
  shows "\<exists>rest. calls (handlePickerFinished b u p st)
           = calls st @ (now st, GetPickerSession u p) # rest"
proof -
  let ?st0 = "st\<lparr>selectingReferences := False, loading := True\<rparr>"
  obtain ex st1 where pu: "pollUntilSet b u p (now st) ?st0 = (ex, st1)"
    by (cases "pollUntilSet b u p (now st) ?st0") auto
  obtain rest where r: "calls st1 = calls st @ (now st, GetPickerSession u p) # rest"
    using pollUntilSet_first_call [of b u p ?st0] pu by auto
  have "\<exists>more. calls (handlePickerFinished b u p st) = calls st1 @ more"
    using sid pu
    by (auto simp: handlePickerFinished_def Let_def await_def sent_simps
        split: loop_exit.splits reply.splits)
  then show ?thesis
    unfolding r by auto
qed





lemma handlePickerFinished_calls_grow:
  "\<exists>more. calls (handlePickerFinished b u p st) = calls st @ more"
proof (cases "sessionId st = None \<or> sessionId st = Some [] \<or> u = []")
  case True
  then show ?thesis
    by (simp add: handlePickerFinished_idle)
next
  case False
  then obtain sid where "sessionId st = Some sid" "sid \<noteq> []" "u \<noteq> []"
    by (cases "sessionId st") auto
  from handlePickerFinished_first_call [OF this, of b p] show ?thesis
    by auto
qed

lemma poll_sends:
  assumes "\<not> timeoutMs < now st - start"
  shows "\<exists>rest. calls (snd (poll b u p start st)) = calls st @ (now st, GetPickerSession u p) # rest"
proof (cases "getPickerSession b (now st) u p")
  case (Threw e)
  show ?thesis
    by (simp add: poll_threw [OF assms Threw] sent_simps)
next
  case (Returned s)
  show ?thesis
  proof (cases "media_items_set s")
    case False
    show ?thesis
      by (simp add: poll_not_set [OF assms Returned False] sent_simps)
  next
    case True
    let ?st1 = "(sent b (GetPickerSession u p) st)
           \<lparr>processedPickerSessions := set_add p (processedPickerSessions st)\<rparr>"
    obtain more where "calls (handlePickerFinished b u p ?st1) = calls ?st1 @ more"
      using handlePickerFinished_calls_grow by blast
    then show ?thesis
      by (simp add: poll_set [OF assms Returned True] sent_simps)
  qed
qed

subsection \<open>Skipping and sending\<close>

lemma handleReferenceSelection_idle:
  "sessionId st = None \<or> sessionId st = Some [] \<Longrightarrow> handleReferenceSelection b u ids st = st"
  by (auto simp: handleReferenceSelection_def split: option.splits)












subsection \<open>The spec-modelled governor and search\<close>

lemma dedupeById_ids:
  "distinct (map media_item_id (dedupeById seen ps))
   \<and> set (map media_item_id (dedupeById seen ps)) \<inter> set seen = {}
   \<and> set (dedupeById seen ps) \<subseteq> set ps"
proof (induction ps arbitrary: seen)
  case Nil
  show ?case by simp
next
  case (Cons p ps)
  show ?case
  proof (cases "media_item_id p \<in> set seen")
    case True
    with Cons.IH [of seen] show ?thesis by auto
  next
    case False
    with Cons.IH [of "media_item_id p # seen"] show ?thesis by auto
  qed
qed

lemma dedupeById_keeps_ids:
  "set (map media_item_id (dedupeById seen ps)) = set (map media_item_id ps) - set seen"
proof (induction ps arbitrary: seen)
  case Nil
  show ?case by simp
next
  case (Cons p ps)
  show ?case
  proof (cases "media_item_id p \<in> set seen")
    case True
    with Cons.IH [of seen] show ?thesis by auto
  next
    case False
    with Cons.IH [of "media_item_id p # seen"] show ?thesis by auto
  qed
qed

lemma boundedQuery_cap: "length (boundedQuery svc q) \<le> perQueryCap"
  by (simp add: boundedQuery_def split: query_answer.splits)

lemma searchReferencePhotos_distinct:
  "distinct (map media_item_id (searchReferencePhotos svc w people pets))"
proof -
  have "distinct (map media_item_id (dedupeById []
          (concat (map (boundedQuery svc) (searchQueries w people pets)))))"
    using dedupeById_ids by blast
  then show ?thesis
    unfolding searchReferencePhotos_def by (simp add: take_map [symmetric] distinct_take)
qed

lemma map_nth_filter_Cons:
  "map (nth (p # ps)) (filter P (0 # map Suc l))
     = (if P 0 then [p] else []) @ map (nth ps) (filter (\<lambda>i. P (Suc i)) l)"
  by (simp add: filter_map comp_def)

lemma dedupeById_first:
  "dedupeById seen xs =
     map (nth xs)
       (filter (\<lambda>i. media_item_id (xs ! i) \<notin> set seen
                     \<and> (\<forall>j < i. media_item_id (xs ! j) \<noteq> media_item_id (xs ! i)))
          [0 ..< length xs])"
proof (induction xs arbitrary: seen)
  case Nil
  show ?case by simp
next
  case (Cons p ps)
  let ?P = "\<lambda>seen xs i. media_item_id (xs ! i) \<notin> set seen
                     \<and> (\<forall>j < i. media_item_id (xs ! j) \<noteq> media_item_id (xs ! i))"
  have upt: "[0 ..< length (p # ps)] = 0 # map Suc [0 ..< length ps]"
    by (simp add: upt_conv_Cons map_Suc_upt del: upt_Suc)
  show ?case
  proof (cases "media_item_id p \<in> set seen")
    case True
    have same: "?P seen (p # ps) (Suc i) \<longleftrightarrow> ?P seen ps i" for i
      using True by (auto simp: less_Suc_eq_0_disj)
    have "dedupeById seen (p # ps) = dedupeById seen ps"
      using True by simp
    also have "\<dots> = map (nth ps) (filter (?P seen ps) [0 ..< length ps])"
      by (rule Cons.IH)
    also have "\<dots> = map (nth (p # ps)) (filter (?P seen (p # ps)) [0 ..< length (p # ps)])"
      unfolding upt map_nth_filter_Cons same using True by simp
    finally show ?thesis .
  next
    case False
    have same: "?P seen (p # ps) (Suc i) \<longleftrightarrow> ?P (media_item_id p # seen) ps i" for i
      by (auto simp: less_Suc_eq_0_disj)
    have "dedupeById seen (p # ps) = p # dedupeById (media_item_id p # seen) ps"
      using False by simp
    also have "dedupeById (media_item_id p # seen) ps
                 = map (nth ps) (filter (?P (media_item_id p # seen) ps) [0 ..< length ps])"
      by (rule Cons.IH)
    also have "p # \<dots> = map (nth (p # ps)) (filter (?P seen (p # ps)) [0 ..< length (p # ps)])"
      unfolding upt map_nth_filter_Cons same using False by simp
    finally show ?thesis .
  qed
qed

subsection \<open>The polls of a run\<close>

lemma tick_within: "timeoutMs < tickTime start k - start \<longleftrightarrow> \<not> k * pollIntervalMs \<le> timeoutMs"
  by (auto simp: tickTime_def)

lemma last_tick: "k * pollIntervalMs \<le> timeoutMs \<longleftrightarrow> k < 41"
  by (auto simp: pollIntervalMs_def timeoutMs_def)

lemma pollTicks_late:
  "\<not> k * pollIntervalMs \<le> timeoutMs \<Longrightarrow> pollTicks b u p start k cleared = []"
  by (subst pollTicks.simps) (simp add: tick_within)

lemma pollTicks_cleared:
  "c \<le> tickTime start k \<Longrightarrow> pollTicks b u p start k (Some c) = []"
  by (subst pollTicks.simps) simp

lemma pollTicks_goes_on:
  assumes "k * pollIntervalMs \<le> timeoutMs"
    and "\<forall>c. cleared = Some c \<longrightarrow> tickTime start k < c"
    and "\<not> seesItemsSet b u p (tickTime start k)"
  shows "pollTicks b u p start k cleared = k # pollTicks b u p start (Suc k) cleared"
  using assms
  by (subst pollTicks.simps) (auto simp: tick_within split: option.splits)

lemma pollTicks_sees:
  assumes "k * pollIntervalMs \<le> timeoutMs"
    and "\<forall>c. cleared = Some c \<longrightarrow> tickTime start k < c"
    and "seesItemsSet b u p (tickTime start k)"
  shows "pollTicks b u p start k cleared =
           k # pollTicks b u p start (Suc k)
                 (Some (case cleared of
                          None \<Rightarrow> tickTime start k + latency b (tickTime start k)
                        | Some c \<Rightarrow> min c (tickTime start k + latency b (tickTime start k))))"
  using assms
  by (subst pollTicks.simps) (auto simp: tick_within split: option.splits)

lemma pollTicks_never:
  assumes "\<forall>t. \<not> seesItemsSet b u p t"
  shows "pollTicks b u p start k None = [k ..< 41]"
proof (induction "41 - k" arbitrary: k)
  case 0
  then have "\<not> k * pollIntervalMs \<le> timeoutMs"
    by (simp add: last_tick)
  then show ?case
    using 0 by (simp add: pollTicks_late)
next
  case (Suc n)
  then have k: "k < 41" by simp
  then have within: "k * pollIntervalMs \<le> timeoutMs"
    by (simp add: last_tick)
  have "pollTicks b u p start k None = k # pollTicks b u p start (Suc k) None"
    by (rule pollTicks_goes_on [OF within]) (simp_all add: assms)
  also have "pollTicks b u p start (Suc k) None = [Suc k ..< 41]"
    using Suc by simp
  finally show ?case
    using k by (simp add: upt_conv_Cons)
qed


lemma pollTicks_mem:
  "k \<in> set (pollTicks b u p start k0 cleared) \<longleftrightarrow>
     k0 \<le> k \<and> k * pollIntervalMs \<le> timeoutMs
     \<and> (\<forall>c. cleared = Some c \<longrightarrow> tickTime start k < c)
     \<and> (\<forall>j. k0 \<le> j \<and> j < k \<and> seesItemsSet b u p (tickTime start j) \<longrightarrow>
              tickTime start k < tickTime start j + latency b (tickTime start j))"
proof (induction b u p start k0 cleared rule: pollTicks.induct)
  case (1 b u p start k0 cleared)
  let ?T = "tickTime start" and ?A = "\<lambda>j. tickTime start j + latency b (tickTime start j)"
  let ?rhs = "\<lambda>k0 cleared. k0 \<le> k \<and> k * pollIntervalMs \<le> timeoutMs
     \<and> (\<forall>c. cleared = Some c \<longrightarrow> ?T k < c)
     \<and> (\<forall>j. k0 \<le> j \<and> j < k \<and> seesItemsSet b u p (?T j) \<longrightarrow> ?T k < ?A j)"
  show ?case
  proof (cases "k0 * pollIntervalMs \<le> timeoutMs")
    case False
    then have "\<not> ?rhs k0 cleared"
      by (auto simp: pollIntervalMs_def timeoutMs_def)
    with False show ?thesis
      by (simp add: pollTicks_late)
  next
    case within: True
    show ?thesis
    proof (cases "\<exists>c. cleared = Some c \<and> c \<le> ?T k0")
      case True
      then obtain c where c: "cleared = Some c" "c \<le> ?T k0" by blast
      have "\<not> ?rhs k0 cleared"
      proof
        assume r: "?rhs k0 cleared"
        then have "?T k < c" using c(1) by blast
        moreover have "?T k0 \<le> ?T k" using r by (simp add: tickTime_def)
        ultimately show False using c(2) by simp
      qed
      then show ?thesis
        unfolding c(1) by (simp add: pollTicks_cleared [OF c(2)])
    next
      case False
      then have running: "\<forall>c. cleared = Some c \<longrightarrow> ?T k0 < c"
        by (auto simp: not_le)
      have a: "\<not> timeoutMs < ?T k0 - start"
        using within by (simp add: tick_within)
      have b: "\<not> (case cleared of None \<Rightarrow> False | Some c \<Rightarrow> c \<le> ?T k0)"
        using running by (auto split: option.splits)
      define cleared' where "cleared' =
               (if seesItemsSet b u p (?T k0)
                then Some (case cleared of None \<Rightarrow> ?A k0 | Some c \<Rightarrow> min c (?A k0))
                else cleared)"
      have unfold: "pollTicks b u p start k0 cleared = k0 # pollTicks b u p start (Suc k0) cleared'"
        using a b by (subst pollTicks.simps) (simp add: cleared'_def Let_def)
      have IH: "k \<in> set (pollTicks b u p start (Suc k0) cleared') \<longleftrightarrow> ?rhs (Suc k0) cleared'"
        unfolding cleared'_def by (rule "1.IH" [OF a b refl refl])
      have later: "?rhs (Suc k0) cleared' \<longleftrightarrow> k \<noteq> k0 \<and> ?rhs k0 cleared"
      proof (cases "seesItemsSet b u p (?T k0)")
        case True
        have c': "(\<forall>c. cleared' = Some c \<longrightarrow> ?T k < c)
                  \<longleftrightarrow> (\<forall>c. cleared = Some c \<longrightarrow> ?T k < c) \<and> ?T k < ?A k0"
          using True by (auto simp: cleared'_def split: option.splits)
        have range: "(\<forall>j. k0 \<le> j \<and> j < k \<and> seesItemsSet b u p (?T j) \<longrightarrow> ?T k < ?A j)
                  \<longleftrightarrow> (k0 < k \<longrightarrow> ?T k < ?A k0)
                       \<and> (\<forall>j. Suc k0 \<le> j \<and> j < k \<and> seesItemsSet b u p (?T j) \<longrightarrow> ?T k < ?A j)"
          using True by (metis Suc_leI le_eq_less_or_eq Suc_le_lessD)
        show ?thesis
          unfolding c' range by auto
      next
        case False
        have c': "cleared' = cleared"
          using False by (simp add: cleared'_def)
        have range: "(\<forall>j. k0 \<le> j \<and> j < k \<and> seesItemsSet b u p (?T j) \<longrightarrow> ?T k < ?A j)
                  \<longleftrightarrow> (\<forall>j. Suc k0 \<le> j \<and> j < k \<and> seesItemsSet b u p (?T j) \<longrightarrow> ?T k < ?A j)"
          using False by (metis Suc_leI le_eq_less_or_eq Suc_le_lessD)
        show ?thesis
          unfolding c' range by auto
      qed
      have first: "k = k0 \<longrightarrow> ?rhs k0 cleared"
        using within running by auto
      show ?thesis
        unfolding unfold using IH later first by auto
    qed
  qed
qed


lemma pollAt_quiet:
  assumes "k * pollIntervalMs \<le> timeoutMs" and "\<not> seesItemsSet b u p (tickTime (now st) k)"
  shows "pollAt b u p st k =
           (False, sent b (GetPickerSession u p) (st\<lparr>now := tickTime (now st) k\<rparr>))"
proof -
  let ?tick = "st\<lparr>now := tickTime (now st) k\<rparr>"
  have within: "\<not> timeoutMs < now ?tick - now st"
    using assms(1) by (simp add: tick_within)
  show ?thesis
  proof (cases "getPickerSession b (tickTime (now st) k) u p")
    case (Threw e)
    then have "getPickerSession b (now ?tick) u p = Threw e" by simp
    from poll_threw [OF within this] show ?thesis
      by (simp add: pollAt_def)
  next
    case (Returned s)
    then have r: "getPickerSession b (now ?tick) u p = Returned s" by simp
    have "\<not> media_items_set s"
      using assms(2) Returned by (simp add: seesItemsSet_def)
    from poll_not_set [OF within r this] show ?thesis
      by (simp add: pollAt_def)
  qed
qed

lemma sorted_ticks: "sorted (map (tickTime start) [i ..< j])"
  by (rule sorted_wrt_mono_rel [of _ "\<lambda>x y. x \<le> y"])
    (auto simp: sorted_wrt_map tickTime_def pollIntervalMs_def sorted_wrt_iff_nth_less)

lemma pickerEffect_never:
  assumes target: "effectPickerSessionId u st = Some p"
    and never: "\<forall>t. \<not> seesItemsSet b u p t"
  shows "\<exists>t. pickerEffect b u st =
               st\<lparr>calls := calls st @ map (\<lambda>k. (tickTime (now st) k, GetPickerSession u p)) [0 ..< 41],
                  now := t\<rparr>
             \<and> now st \<le> t"
proof -
  let ?c = "GetPickerSession u p"
  let ?quiet = "\<lambda>k. (False, sent b ?c (st\<lparr>now := tickTime (now st) k\<rparr>))"
  define ks :: "nat list" where "ks = [0 ..< 41]"
  have ticks: "pollTicks b u p (now st) 0 None = ks"
    unfolding ks_def by (rule pollTicks_never [OF never])
  have polls: "map (pollAt b u p st) ks = map ?quiet ks"
    unfolding ks_def by (rule map_cong [OF refl]) (simp add: pollAt_quiet last_tick never)
  have msgs: "concat (map (\<lambda>s. drop (length (messages st)) (messages s))
                        (sort_key now (map snd (map ?quiet ks)))) = []"
    by (auto simp: sent_simps)
  have new: "concat (map (\<lambda>s. drop (length (calls st)) (calls s)) (map snd (map ?quiet ks)))
               = map (\<lambda>k. (tickTime (now st) k, ?c)) ks"
    by (simp add: sent_simps comp_def)
  have "sorted (map fst (map (\<lambda>k. (tickTime (now st) k, ?c)) ks))"
    unfolding ks_def using sorted_ticks [of "now st" 0 41] by (simp add: comp_def del: upt_Suc)
  then have sorted: "sort_key fst (map (\<lambda>k. (tickTime (now st) k, ?c)) ks)
                       = map (\<lambda>k. (tickTime (now st) k, ?c)) ks"
    by (rule sort_key_id_if_sorted)
  have quiet: "\<not> list_ex fst (map ?quiet ks)"
    by (simp add: list_ex_iff)
  have later: "now st \<le> fold max xs (now st)" for xs :: "nat list"
    by (induction xs rule: rev_induct) simp_all
  have "pickerEffect b u st =
          (let polls = map ?quiet ks;
               ended = sort_key now (map snd polls);
               finished = list_ex fst polls
           in st\<lparr>messages :=
                   messages st @ concat (map (\<lambda>s. drop (length (messages st)) (messages s)) ended),
                 calls :=
                   calls st @ sort_key fst
                     (concat (map (\<lambda>s. drop (length (calls st)) (calls s)) (map snd polls))),
                 processedPickerSessions :=
                   (if finished then set_add p (processedPickerSessions st)
                    else processedPickerSessions st),
                 selectingReferences := (if finished then False else selectingReferences st),
                 loading := (if finished then False else loading st),
                 now := fold max (map now ended) (now st)\<rparr>)"
    by (simp only: pickerEffect_def target option.case ticks polls)
  also have "\<dots> = st\<lparr>calls := calls st @ map (\<lambda>k. (tickTime (now st) k, ?c)) ks,
             now := fold max (map now (sort_key now (map snd (map ?quiet ks)))) (now st)\<rparr>"
    by (simp only: Let_def msgs new sorted quiet if_False append_Nil2) simp
  finally show ?thesis
    unfolding ks_def using later by blast
qed

lemma pickerEffect_one_poll:
  assumes target: "effectPickerSessionId u st = Some p"
    and ticks: "pollTicks b u p (now st) 0 None = [0]"
    and first: "poll b u p (now st) st = (called, s)"
  shows "pickerEffect b u st =
           st\<lparr>messages := messages st @ drop (length (messages st)) (messages s),
              calls := calls st @ sort_key fst (drop (length (calls st)) (calls s)),
              processedPickerSessions :=
                (if called then set_add p (processedPickerSessions st)
                 else processedPickerSessions st),
              selectingReferences := (if called then False else selectingReferences st),
              loading := (if called then False else loading st),
              now := max (now s) (now st)\<rparr>"
proof -
  have "st\<lparr>now := tickTime (now st) 0\<rparr> = st"
    by (simp add: tickTime_def)
  then have "pollAt b u p st 0 = (called, s)"
    using first by (simp add: pollAt_def)
  then show ?thesis
    by (simp add: pickerEffect_def target ticks Let_def)
qed

lemma pollTicks_first_sees:
  assumes "seesItemsSet b u p start" and "latency b start \<le> pollIntervalMs"
  shows "pollTicks b u p start 0 None = [0]"
proof -
  have "pollTicks b u p start 0 None =
          0 # pollTicks b u p start (Suc 0) (Some (start + latency b start))"
    using pollTicks_sees [of 0 None start b u p] assms(1)
    by (simp add: tickTime_def)
  also have "pollTicks b u p start (Suc 0) (Some (start + latency b start)) = []"
    by (rule pollTicks_cleared) (simp add: tickTime_def assms(2))
  finally show ?thesis .
qed

lemma pollTicks_head:
  assumes "k * pollIntervalMs \<le> timeoutMs"
    and "\<forall>c. cleared = Some c \<longrightarrow> tickTime start k < c"
  shows "\<exists>rest. pollTicks b u p start k cleared = k # rest"
  using assms
  by (subst pollTicks.simps) (auto simp: tick_within Let_def split: option.splits)

lemma pollAt_sends:
  assumes "k * pollIntervalMs \<le> timeoutMs"
  shows "\<exists>rest. calls (snd (pollAt b u p st k))
                  = calls st @ (tickTime (now st) k, GetPickerSession u p) # rest"
proof -
  let ?tick = "st\<lparr>now := tickTime (now st) k\<rparr>"
  have "\<not> timeoutMs < now ?tick - now st"
    using assms by (simp add: tick_within)
  from poll_sends [OF this, of b u p] show ?thesis
    by (simp add: pollAt_def)
qed



lemma pollTicks_first: "0 \<in> set (pollTicks b u p start 0 None)"
  by (simp add: pollTicks_mem)



lemma pollTicks_next:
  assumes "\<not> seesItemsSet b u p (tickTime start k)"
  shows "Suc k \<in> set (pollTicks b u p start 0 None) \<longleftrightarrow>
           Suc k * pollIntervalMs \<le> timeoutMs
           \<and> (\<forall>j < k. seesItemsSet b u p (tickTime start j) \<longrightarrow>
                       tickTime start (Suc k) < tickTime start j + latency b (tickTime start j))"
  unfolding pollTicks_mem using assms by (auto simp: less_Suc_eq)

text \<open>
  A run whose polls overlap. Every request takes 5 seconds and the items are set: the tick at
  3000 ms sends its request before the first answer has arrived, at 5000 ms, and the tick at
  6000 ms does not happen. Both polls see the items set and call \<^verbatim>\<open>handlePickerFinished\<close>:
  no poll looks into the processed set, and the media list is fetched and stored twice.
\<close>

lemma overlapping_polls_store_twice:
  "pollTicks slowPickedBackend ''user-1'' ''picker-1'' 0 0 None = [0, 1]
   \<and> calls (pickerEffect slowPickedBackend ''user-1'' waitingState)
       = [(0, GetPickerSession ''user-1'' ''picker-1''),
          (3000, GetPickerSession ''user-1'' ''picker-1''),
          (5000, GetPickerSession ''user-1'' ''picker-1''),
          (8000, GetPickerSession ''user-1'' ''picker-1''),
          (10000, ListPickerMedia ''user-1'' ''picker-1''),
          (13000, ListPickerMedia ''user-1'' ''picker-1''),
          (15000, StoreReferencePhotos ''user-1'' ''session-1'' [''photo-1'']
                    [''https://photos.example/1'']),
          (18000, StoreReferencePhotos ''user-1'' ''session-1'' [''photo-1'']
                    [''https://photos.example/1''])]
   \<and> map stageOf (messages (pickerEffect slowPickedBackend ''user-1'' waitingState))
       = [Some ''selecting_references'', Some ''ready_to_generate'', Some ''ready_to_generate'']
   \<and> processedPickerSessions (pickerEffect slowPickedBackend ''user-1'' waitingState)
       = [''picker-1'']"
proof -
  let ?b = slowPickedBackend and ?u = "''user-1''" and ?p = "''picker-1''"
  let ?c = "GetPickerSession ''user-1'' ''picker-1''"
  let ?store = "StoreReferencePhotos ''user-1'' ''session-1'' [''photo-1''] [''https://photos.example/1'']"
  let ?stored = "\<lparr>role = Assistant,
           content = or_else []
             ''Here are your reference photos. Add any context below, then click Generate when ready.'',
           metadata = stageOnly ''ready_to_generate''\<rparr>"
  have b: "getPickerSession ?b t ?u ?p = Returned \<lparr>media_items_set = True\<rparr>"
    "listPickerMedia ?b t ?u ?p =
       Returned [\<lparr>item_media_item_id = ''photo-1'', item_url = Some ''https://photos.example/1''\<rparr>]"
    "storeReferencePhotos ?b t ?u s ids urls =
       Returned \<lparr>message = [], response_metadata = stageOnly ''ready_to_generate''\<rparr>"
    "latency ?b t = 5000" for t s ids urls
    by (simp_all add: slowPickedBackend_def pickedBackend_simps)
  have sees: "seesItemsSet ?b ?u ?p t" for t
    by (simp add: seesItemsSet_def b)
  have "pollTicks ?b ?u ?p 0 0 None = 0 # pollTicks ?b ?u ?p 0 (Suc 0) (Some 5000)"
    using pollTicks_sees [of 0 None 0 ?b ?u ?p] sees by (simp add: tickTime_def b)
  also have "pollTicks ?b ?u ?p 0 (Suc 0) (Some 5000)
               = Suc 0 # pollTicks ?b ?u ?p 0 (Suc (Suc 0)) (Some 5000)"
    using pollTicks_sees [of "Suc 0" "Some 5000" 0 ?b ?u ?p] sees
    by (simp add: tickTime_def b pollIntervalMs_def timeoutMs_def)
  also have "pollTicks ?b ?u ?p 0 (Suc (Suc 0)) (Some 5000) = []"
    by (rule pollTicks_cleared) (simp add: tickTime_def pollIntervalMs_def)
  finally have ticks: "pollTicks ?b ?u ?p 0 0 None = [0, 1]"
    by simp
  have target: "effectPickerSessionId ?u waitingState = Some ?p"
    by (simp add: effectPickerSessionId_def waitingState_simps pickerMessage_simps truthy_def
        set_has_def)
  have one: "pollAt ?b ?u ?p waitingState k =
      (True,
       waitingState\<lparr>messages := [pickerMessage, ?stored], loading := False,
                    selectingReferences := False, processedPickerSessions := [?p],
                    now := k * 3000 + 20000,
                    calls := [(k * 3000, ?c), (k * 3000 + 5000, ?c),
                              (k * 3000 + 10000, ListPickerMedia ?u ?p),
                              (k * 3000 + 15000, ?store)]\<rparr>)"
    if "k * 3000 \<le> 120000" for k
  proof -
    let ?tick = "waitingState\<lparr>now := tickTime (now waitingState) k\<rparr>"
    define st2 where "st2 = (sent ?b ?c ?tick)
           \<lparr>processedPickerSessions := set_add ?p (processedPickerSessions ?tick)\<rparr>"
    have within: "\<not> timeoutMs < now ?tick - now waitingState"
      using that by (simp add: tickTime_def pollIntervalMs_def timeoutMs_def)
    have p: "pollAt ?b ?u ?p waitingState k = (True, handlePickerFinished ?b ?u ?p st2)"
      unfolding pollAt_def st2_def
      by (rule poll_set [OF within, of ?b ?u ?p "\<lparr>media_items_set = True\<rparr>"]) (simp_all add: b)
    have g: "sessionId st2 = Some ''session-1''" "now st2 = k * 3000 + 5000"
      "calls st2 = [(k * 3000, ?c)]" "messages st2 = [pickerMessage]"
      "processedPickerSessions st2 = [?p]"
      by (simp_all add: st2_def sent_simps waitingState_simps b tickTime_def pollIntervalMs_def
          set_add_def set_has_def)
    have st3: "handlePickerFinished ?b ?u ?p st2 =
      (sent ?b ?store (sent ?b (ListPickerMedia ?u ?p) (sent ?b ?c
         (st2\<lparr>selectingReferences := False, loading := True\<rparr>))))
      \<lparr>messages := messages st2 @ [?stored], loading := False\<rparr>"
      using handlePickerFinished_stores [of st2 "''session-1''" ?u ?b ?p
        "\<lparr>media_items_set = True\<rparr>"
        "[\<lparr>item_media_item_id = ''photo-1'', item_url = Some ''https://photos.example/1''\<rparr>]"
        "\<lparr>message = [], response_metadata = stageOnly ''ready_to_generate''\<rparr>"]
      by (simp add: g b truthy_def)
    show ?thesis
      unfolding p st3
      by (simp add: sent_def g st2_def waitingState_def b tickTime_def pollIntervalMs_def
          set_add_def set_has_def)
  qed
  have first: "pollAt ?b ?u ?p waitingState 0 =
      (True,
       waitingState\<lparr>messages := [pickerMessage, ?stored], loading := False,
                    selectingReferences := False, processedPickerSessions := [?p],
                    now := 20000,
                    calls := [(0, ?c), (5000, ?c), (10000, ListPickerMedia ?u ?p), (15000, ?store)]\<rparr>)"
    using one [of 0] by simp
  have second: "pollAt ?b ?u ?p waitingState (Suc 0) =
      (True,
       waitingState\<lparr>messages := [pickerMessage, ?stored], loading := False,
                    selectingReferences := False, processedPickerSessions := [?p],
                    now := 23000,
                    calls := [(3000, ?c), (8000, ?c), (13000, ListPickerMedia ?u ?p), (18000, ?store)]\<rparr>)"
    using one [of "Suc 0"] by simp
  have stages: "stageOf pickerMessage = Some ''selecting_references''"
    "stageOf ?stored = Some ''ready_to_generate''"
    by (simp_all add: stageOf_def pickerMessage_simps stageOnly_def)
  have effect: "pickerEffect ?b ?u waitingState =
      waitingState\<lparr>messages := [pickerMessage, ?stored, ?stored],
         calls := [(0, ?c), (3000, ?c), (5000, ?c), (8000, ?c),
                   (10000, ListPickerMedia ?u ?p), (13000, ListPickerMedia ?u ?p),
                   (15000, ?store), (18000, ?store)],
         processedPickerSessions := [?p], selectingReferences := False, loading := False,
         now := 23000\<rparr>"
    unfolding pickerEffect_def target
    by (simp add: waitingState_simps ticks first second Let_def set_add_def set_has_def)
  show ?thesis
    unfolding effect using ticks by (simp add: stages)
qed



subsection \<open>The photo selector and the image URL\<close>

text \<open>
  C9. \<^verbatim>\<open>togglePhoto\<close> flips the membership of the id it is given and of no other id,
  toggling the same id twice gives back the same selected set, and the ids that
  \<^verbatim>\<open>handleConfirm\<close> passes to \<^verbatim>\<open>onConfirm\<close>, after any sequence of clicks on the rendered
  photo buttons, are media item ids of the displayed photos.
\<close>

theorem togglePhoto_involution:
  "(p \<in> set (togglePhoto p sel)) = (p \<notin> set sel)
   \<and> (q \<noteq> p \<longrightarrow> (q \<in> set (togglePhoto p sel)) = (q \<in> set sel))
   \<and> set (togglePhoto p (togglePhoto p sel)) = set sel
   \<and> set (handleConfirm (selectedAfter photos busy clicks)) \<subseteq> set (map media_item_id photos)"
proof -
  have "set (foldl (clickPhoto photos busy) [] clicks) \<subseteq> set (map media_item_id photos)"
    by (rule foldl_clickPhoto_displayed) simp
  then have "set (handleConfirm (selectedAfter photos busy clicks)) \<subseteq> set (map media_item_id photos)"
    by (simp add: handleConfirm_def selectedAfter_def)
  moreover have "set (togglePhoto p (togglePhoto p sel)) = set sel"
    by (auto simp: togglePhoto_set)
  moreover have "(p \<in> set (togglePhoto p sel)) = (p \<notin> set sel)"
    by (simp add: togglePhoto_set)
  moreover have "q \<noteq> p \<longrightarrow> (q \<in> set (togglePhoto p sel)) = (q \<in> set sel)"
    by (simp add: togglePhoto_set)
  ultimately show ?thesis by blast
qed

theorem togglePhoto_involution_witness:
  "''b'' \<noteq> ''a''
   \<and> (''a'' \<in> set (togglePhoto ''a'' [''b''])) = (''a'' \<notin> set [''b''])
   \<and> (''b'' \<in> set (togglePhoto ''a'' [''b''])) = (''b'' \<in> set [''b''])
   \<and> set (togglePhoto ''a'' (togglePhoto ''a'' [''b''])) = set [''b'']
   \<and> set (handleConfirm (selectedAfter
          [\<lparr>media_item_id = ''a'', thumbnail_url = ''t'', url = ''u'',
             creation_time = None, description = None\<rparr>,
           \<lparr>media_item_id = ''b'', thumbnail_url = ''t'', url = ''u'',
             creation_time = None, description = None\<rparr>] False [0, 1, 0, 7]))
       \<subseteq> set (map media_item_id
          [\<lparr>media_item_id = ''a'', thumbnail_url = ''t'', url = ''u'',
             creation_time = None, description = None\<rparr>,
           \<lparr>media_item_id = ''b'', thumbnail_url = ''t'', url = ''u'',
             creation_time = None, description = None\<rparr>])
   \<and> handleConfirm (selectedAfter
          [\<lparr>media_item_id = ''a'', thumbnail_url = ''t'', url = ''u'',
             creation_time = None, description = None\<rparr>,
           \<lparr>media_item_id = ''b'', thumbnail_url = ''t'', url = ''u'',
             creation_time = None, description = None\<rparr>] False [0, 1, 0, 7]) = [''b'']"
proof -
  have ne: "''b'' \<noteq> ''a''" by simp
  have run: "handleConfirm (selectedAfter
          [\<lparr>media_item_id = ''a'', thumbnail_url = ''t'', url = ''u'',
             creation_time = None, description = None\<rparr>,
           \<lparr>media_item_id = ''b'', thumbnail_url = ''t'', url = ''u'',
             creation_time = None, description = None\<rparr>] False [0, 1, 0, 7]) = [''b'']"
    by (simp add: handleConfirm_def selectedAfter_def clickPhoto_def togglePhoto_def
        set_has_def set_add_def set_delete_def)
  show ?thesis
    using ne run
      togglePhoto_involution [of "''a''" "[''b'']" "''b''"
        "[\<lparr>media_item_id = ''a'', thumbnail_url = ''t'', url = ''u'',
             creation_time = None, description = None\<rparr>,
           \<lparr>media_item_id = ''b'', thumbnail_url = ''t'', url = ''u'',
             creation_time = None, description = None\<rparr>]" False "[0, 1, 0, 7]"]
    by simp
qed

text \<open>
  C10. \<^verbatim>\<open>getImageFilenameFromUrl\<close> returns \<^verbatim>\<open>null\<close> for \<^verbatim>\<open>undefined\<close>, for the empty
  string and for an input the URL constructor rejects (the exception is caught); otherwise
  it returns the part of the URL's path after its last \<^verbatim>\<open>/\<close> when that part contains a dot,
  and \<^verbatim>\<open>null\<close> when it does not. A result is a suffix of the path, cut right after a
  \<^verbatim>\<open>/\<close> or at the path's start, and contains no \<^verbatim>\<open>/\<close>: nothing of the host or the query,
  which are not part of the path.
\<close>

theorem getImageFilenameFromUrl_final_segment:
  "getImageFilenameFromUrl url_pathname None = None
   \<and> getImageFilenameFromUrl url_pathname (Some []) = None
   \<and> (url_pathname u = None \<longrightarrow> getImageFilenameFromUrl url_pathname (Some u) = None)
   \<and> (u \<noteq> [] \<and> url_pathname u = Some path \<longrightarrow>
        getImageFilenameFromUrl url_pathname (Some u) =
          (let seg = rev (takeWhile (\<lambda>x. x \<noteq> CHR ''/'') (rev path))
           in if CHR ''.'' \<in> set seg then Some seg else None)
        \<and> (\<forall>r. getImageFilenameFromUrl url_pathname (Some u) = Some r \<longrightarrow>
              CHR ''/'' \<notin> set r \<and> CHR ''.'' \<in> set r
              \<and> (\<exists>pre. path = pre @ r \<and> (pre = [] \<or> last pre = CHR ''/''))))"
proof -
  have a: "getImageFilenameFromUrl url_pathname None = None"
    by (simp add: getImageFilenameFromUrl_def)
  have b: "getImageFilenameFromUrl url_pathname (Some []) = None"
    by (simp add: getImageFilenameFromUrl_def)
  have c: "url_pathname u = None \<longrightarrow> getImageFilenameFromUrl url_pathname (Some u) = None"
    by (simp add: getImageFilenameFromUrl_def)
  have d: "getImageFilenameFromUrl url_pathname (Some u) =
          (let seg = rev (takeWhile (\<lambda>x. x \<noteq> CHR ''/'') (rev path))
           in if CHR ''.'' \<in> set seg then Some seg else None)
        \<and> (\<forall>r. getImageFilenameFromUrl url_pathname (Some u) = Some r \<longrightarrow>
              CHR ''/'' \<notin> set r \<and> CHR ''.'' \<in> set r
              \<and> (\<exists>pre. path = pre @ r \<and> (pre = [] \<or> last pre = CHR ''/'')))"
    if h: "u \<noteq> []" "url_pathname u = Some path"
  proof -
    let ?seg = "rev (takeWhile (\<lambda>x. x \<noteq> CHR ''/'') (rev path))"
    have eq: "getImageFilenameFromUrl url_pathname (Some u) =
               (if CHR ''.'' \<in> set ?seg then Some ?seg else None)"
      using h getImageFilenameFromUrl_path [of u url_pathname path] by (simp add: Let_def)
    have noslash: "CHR ''/'' \<notin> set ?seg"
      using set_takeWhileD [of "CHR ''/''" "\<lambda>x. x \<noteq> CHR ''/''" "rev path"] by auto
    have suf: "\<exists>pre. path = pre @ ?seg \<and> (pre = [] \<or> last pre = CHR ''/'')"
      by (rule final_segment_suffix)
    have "\<forall>r. getImageFilenameFromUrl url_pathname (Some u) = Some r \<longrightarrow>
              CHR ''/'' \<notin> set r \<and> CHR ''.'' \<in> set r
              \<and> (\<exists>pre. path = pre @ r \<and> (pre = [] \<or> last pre = CHR ''/''))"
    proof (intro allI impI)
      fix r assume "getImageFilenameFromUrl url_pathname (Some u) = Some r"
      with eq have r: "r = ?seg" and dot: "CHR ''.'' \<in> set ?seg"
        by (auto split: if_splits)
      show "CHR ''/'' \<notin> set r \<and> CHR ''.'' \<in> set r
              \<and> (\<exists>pre. path = pre @ r \<and> (pre = [] \<or> last pre = CHR ''/''))"
        unfolding r using noslash dot suf by (intro conjI)
    qed
    moreover have "getImageFilenameFromUrl url_pathname (Some u) =
          (let seg = ?seg in if CHR ''.'' \<in> set seg then Some seg else None)"
      unfolding Let_def by (rule eq)
    ultimately show ?thesis by (intro conjI)
  qed
  have d': "u \<noteq> [] \<and> url_pathname u = Some path \<longrightarrow>
        getImageFilenameFromUrl url_pathname (Some u) =
          (let seg = rev (takeWhile (\<lambda>x. x \<noteq> CHR ''/'') (rev path))
           in if CHR ''.'' \<in> set seg then Some seg else None)
        \<and> (\<forall>r. getImageFilenameFromUrl url_pathname (Some u) = Some r \<longrightarrow>
              CHR ''/'' \<notin> set r \<and> CHR ''.'' \<in> set r
              \<and> (\<exists>pre. path = pre @ r \<and> (pre = [] \<or> last pre = CHR ''/'')))"
    by (intro impI, elim conjE, rule d)
  show ?thesis
    apply (intro conjI)
       apply (rule a)
      apply (rule b)
     apply (rule c)
    apply (rule d')
    done
qed

theorem getImageFilenameFromUrl_final_segment_witness:
  "''/images/memory_7_1.jpg?user_id=7'' \<noteq> []
   \<and> (\<lambda>u. if u = ''/images/memory_7_1.jpg?user_id=7'' then Some ''/images/memory_7_1.jpg'' else None)
        ''/images/memory_7_1.jpg?user_id=7'' = Some ''/images/memory_7_1.jpg''
   \<and> getImageFilenameFromUrl
        (\<lambda>u. if u = ''/images/memory_7_1.jpg?user_id=7'' then Some ''/images/memory_7_1.jpg'' else None)
        (Some ''/images/memory_7_1.jpg?user_id=7'') = Some ''memory_7_1.jpg''
   \<and> getImageFilenameFromUrl
        (\<lambda>u. if u = ''/images/memory_7_1.jpg?user_id=7'' then Some ''/images/memory_7_1.jpg'' else None)
        (Some ''http://['') = None"
  using getImageFilenameFromUrl_final_segment
    [of "\<lambda>u. if u = ''/images/memory_7_1.jpg?user_id=7'' then Some ''/images/memory_7_1.jpg'' else None"
        "''/images/memory_7_1.jpg?user_id=7''" "''/images/memory_7_1.jpg''"]
    getImageFilenameFromUrl_final_segment
    [of "\<lambda>u. if u = ''/images/memory_7_1.jpg?user_id=7'' then Some ''/images/memory_7_1.jpg'' else None"
        "''http://[''" "[]"]
  by (simp add: Let_def)

text \<open>
  C8. Let the poll of tick \<open>k\<close> of a run of the polling effect send a status request that
  throws. That poll changes nothing but the list of requests sent (and the clock): the
  picker session is not added to the processed set and \<^verbatim>\<open>handlePickerFinished\<close> is not
  called (no message, no change of \<^verbatim>\<open>loading\<close> or \<^verbatim>\<open>selectingReferences\<close>). The interval is
  not cleared, so the run goes on: the next tick is \<open>pollIntervalMs\<close> after this one, however
  long the failed request took, and whether its poll sends a request depends on the timeout
  and on the answers to the polls before tick \<open>k\<close> only; when it does, the request is sent at
  the tick. In a run whose requests all throw, every tick up to the timeout sends its
  request, that is 41 requests 3000 ms apart, and the state at the end is the one at the
  start but for the requests sent and the clock.
\<close>

theorem poll_error_swallowed:
  assumes fired: "k \<in> set (pollTicks b u p (now st) 0 None)"
    and threw: "getPickerSession b (tickTime (now st) k) u p = Threw e"
  shows "pollAt b u p st k =
           (False, st\<lparr>now := tickTime (now st) k + latency b (tickTime (now st) k),
                      calls := calls st @ [(tickTime (now st) k, GetPickerSession u p)]\<rparr>)
         \<and> processedPickerSessions (snd (pollAt b u p st k)) = processedPickerSessions st
         \<and> messages (snd (pollAt b u p st k)) = messages st
         \<and> loading (snd (pollAt b u p st k)) = loading st
         \<and> selectingReferences (snd (pollAt b u p st k)) = selectingReferences st
         \<and> tickTime (now st) (Suc k) = tickTime (now st) k + pollIntervalMs
         \<and> (Suc k \<in> set (pollTicks b u p (now st) 0 None) \<longleftrightarrow>
              Suc k * pollIntervalMs \<le> timeoutMs
              \<and> (\<forall>j < k. seesItemsSet b u p (tickTime (now st) j) \<longrightarrow>
                          tickTime (now st) (Suc k)
                            < tickTime (now st) j + latency b (tickTime (now st) j)))
         \<and> (Suc k \<in> set (pollTicks b u p (now st) 0 None) \<longrightarrow>
              (\<exists>more. calls (snd (pollAt b u p st (Suc k)))
                        = calls st @ (tickTime (now st) (Suc k), GetPickerSession u p) # more))
         \<and> (\<forall>cleared. (\<forall>c. cleared = Some c \<longrightarrow> tickTime (now st) k < c) \<longrightarrow>
              pollTicks b u p (now st) k cleared = k # pollTicks b u p (now st) (Suc k) cleared)
         \<and> ((\<forall>t. \<exists>e. getPickerSession b t u p = Threw e) \<and> effectPickerSessionId u st = Some p \<longrightarrow>
            (\<exists>t. pickerEffect b u st =
                    st\<lparr>calls := calls st @ map (\<lambda>k. (tickTime (now st) k, GetPickerSession u p))
                                             [0 ..< 41],
                       now := t\<rparr>))"
proof -
  let ?c = "GetPickerSession u p"
  have within: "k * pollIntervalMs \<le> timeoutMs"
    using fired by (simp add: pollTicks_mem)
  have quiet: "\<not> seesItemsSet b u p (tickTime (now st) k)"
    by (simp add: seesItemsSet_def threw)
  have p: "pollAt b u p st k = (False, sent b ?c (st\<lparr>now := tickTime (now st) k\<rparr>))"
    by (rule pollAt_quiet [OF within quiet])
  have a: "pollAt b u p st k =
           (False, st\<lparr>now := tickTime (now st) k + latency b (tickTime (now st) k),
                      calls := calls st @ [(tickTime (now st) k, ?c)]\<rparr>)"
    unfolding p by (simp add: sent_def)
  have b: "processedPickerSessions (snd (pollAt b u p st k)) = processedPickerSessions st"
    and c: "messages (snd (pollAt b u p st k)) = messages st"
    and d: "loading (snd (pollAt b u p st k)) = loading st"
    and e: "selectingReferences (snd (pollAt b u p st k)) = selectingReferences st"
    unfolding a by simp_all
  have f: "tickTime (now st) (Suc k) = tickTime (now st) k + pollIntervalMs"
    by (simp add: tickTime_def)
  have g: "Suc k \<in> set (pollTicks b u p (now st) 0 None) \<longleftrightarrow>
              Suc k * pollIntervalMs \<le> timeoutMs
              \<and> (\<forall>j < k. seesItemsSet b u p (tickTime (now st) j) \<longrightarrow>
                          tickTime (now st) (Suc k)
                            < tickTime (now st) j + latency b (tickTime (now st) j))"
    by (rule pollTicks_next [OF quiet])
  have h: "Suc k \<in> set (pollTicks b u p (now st) 0 None) \<longrightarrow>
              (\<exists>more. calls (snd (pollAt b u p st (Suc k)))
                        = calls st @ (tickTime (now st) (Suc k), ?c) # more)"
  proof
    assume "Suc k \<in> set (pollTicks b u p (now st) 0 None)"
    then have "Suc k * pollIntervalMs \<le> timeoutMs"
      by (simp add: pollTicks_mem)
    then show "\<exists>more. calls (snd (pollAt b u p st (Suc k)))
                        = calls st @ (tickTime (now st) (Suc k), ?c) # more"
      by (rule pollAt_sends)
  qed
  have i: "\<forall>cleared. (\<forall>c. cleared = Some c \<longrightarrow> tickTime (now st) k < c) \<longrightarrow>
              pollTicks b u p (now st) k cleared = k # pollTicks b u p (now st) (Suc k) cleared"
    using pollTicks_goes_on [OF within _ quiet] by blast
  have j: "(\<forall>t. \<exists>e. getPickerSession b t u p = Threw e) \<and> effectPickerSessionId u st = Some p \<longrightarrow>
            (\<exists>t. pickerEffect b u st =
                    st\<lparr>calls := calls st @ map (\<lambda>k. (tickTime (now st) k, ?c)) [0 ..< 41],
                       now := t\<rparr>)"
  proof
    assume all: "(\<forall>t. \<exists>e. getPickerSession b t u p = Threw e) \<and> effectPickerSessionId u st = Some p"
    have never: "\<forall>t. \<not> seesItemsSet b u p t"
    proof
      fix t
      from all obtain e where "getPickerSession b t u p = Threw e" by blast
      then show "\<not> seesItemsSet b u p t" by (simp add: seesItemsSet_def)
    qed
    from all pickerEffect_never [OF _ never, of st]
    show "\<exists>t. pickerEffect b u st =
                    st\<lparr>calls := calls st @ map (\<lambda>k. (tickTime (now st) k, ?c)) [0 ..< 41],
                       now := t\<rparr>"
      by blast
  qed
  show ?thesis
    apply (intro conjI)
             apply (fact a)
            apply (fact b)
           apply (fact c)
          apply (fact d)
         apply (fact e)
        apply (fact f)
       apply (fact g)
      apply (fact h)
     apply (fact i)
    apply (fact j)
    done
qed

text \<open>
  The theorem at a status request that fails after hanging for 130 seconds: the second
  request is sent 3000 ms after the first, and the run sends its 41 requests.
\<close>

theorem poll_error_swallowed_witness:
  "0 \<in> set (pollTicks hangingBackend ''user-1'' ''picker-1'' (now waitingState) 0 None)
   \<and> getPickerSession hangingBackend (tickTime (now waitingState) 0) ''user-1'' ''picker-1''
       = Threw \<lparr>error_status = None, error_text = ''Failed to fetch''\<rparr>
   \<and> pollAt hangingBackend ''user-1'' ''picker-1'' waitingState 0 =
       (False, waitingState\<lparr>now := 130000, calls := [(0, GetPickerSession ''user-1'' ''picker-1'')]\<rparr>)
   \<and> processedPickerSessions (snd (pollAt hangingBackend ''user-1'' ''picker-1'' waitingState 0)) = []
   \<and> Suc 0 \<in> set (pollTicks hangingBackend ''user-1'' ''picker-1'' (now waitingState) 0 None)
   \<and> (\<exists>more. calls (snd (pollAt hangingBackend ''user-1'' ''picker-1'' waitingState (Suc 0)))
               = (3000, GetPickerSession ''user-1'' ''picker-1'') # more)
   \<and> pollTicks hangingBackend ''user-1'' ''picker-1'' (now waitingState) 0 None
       = 0 # pollTicks hangingBackend ''user-1'' ''picker-1'' (now waitingState) (Suc 0) None
   \<and> effectPickerSessionId ''user-1'' waitingState = Some ''picker-1''
   \<and> (\<exists>t. pickerEffect hangingBackend ''user-1'' waitingState =
             waitingState\<lparr>calls := map (\<lambda>k. (k * 3000, GetPickerSession ''user-1'' ''picker-1''))
                                       [0 ..< 41],
                          now := t\<rparr>)"
proof -
  let ?b = hangingBackend and ?u = "''user-1''" and ?p = "''picker-1''"
  let ?e = "\<lparr>error_status = None, error_text = ''Failed to fetch''\<rparr>"
  have fails: "getPickerSession ?b t ?u ?p = Threw ?e" for t
    by (simp add: hangingBackend_def failingBackend_simps)
  have slow: "latency ?b t = 130000" for t
    by (simp add: hangingBackend_def)
  have fired: "0 \<in> set (pollTicks ?b ?u ?p (now waitingState) 0 None)"
    by (rule pollTicks_first)
  have target: "effectPickerSessionId ?u waitingState = Some ?p"
    by (simp add: effectPickerSessionId_def waitingState_simps pickerMessage_simps truthy_def
        set_has_def)
  have all: "\<forall>t. \<exists>e. getPickerSession ?b t ?u ?p = Threw e"
    using fails by blast
  note main = poll_error_swallowed [OF fired fails]
  from main have a: "pollAt ?b ?u ?p waitingState 0 =
       (False, waitingState\<lparr>now := 130000, calls := [(0, GetPickerSession ?u ?p)]\<rparr>)"
    by (simp add: tickTime_def waitingState_simps slow)
  have b: "processedPickerSessions (snd (pollAt ?b ?u ?p waitingState 0)) = []"
    using main by (simp add: waitingState_simps)
  from main have "Suc 0 \<in> set (pollTicks ?b ?u ?p (now waitingState) 0 None) \<longleftrightarrow>
              Suc 0 * pollIntervalMs \<le> timeoutMs
              \<and> (\<forall>j < 0. seesItemsSet ?b ?u ?p (tickTime (now waitingState) j) \<longrightarrow>
                          tickTime (now waitingState) (Suc 0)
                            < tickTime (now waitingState) j + latency ?b (tickTime (now waitingState) j))"
    by (elim conjE)
  then have c: "Suc 0 \<in> set (pollTicks ?b ?u ?p (now waitingState) 0 None)"
    by (simp add: pollIntervalMs_def timeoutMs_def)
  from main have "Suc 0 \<in> set (pollTicks ?b ?u ?p (now waitingState) 0 None) \<longrightarrow>
              (\<exists>more. calls (snd (pollAt ?b ?u ?p waitingState (Suc 0)))
                        = calls waitingState
                          @ (tickTime (now waitingState) (Suc 0), GetPickerSession ?u ?p) # more)"
    by (elim conjE)
  with c have d: "\<exists>more. calls (snd (pollAt ?b ?u ?p waitingState (Suc 0)))
                    = (3000, GetPickerSession ?u ?p) # more"
    by (simp add: waitingState_simps tickTime_def pollIntervalMs_def)
  from main have "\<forall>cleared. (\<forall>c. cleared = Some c \<longrightarrow> tickTime (now waitingState) 0 < c) \<longrightarrow>
              pollTicks ?b ?u ?p (now waitingState) 0 cleared
                = 0 # pollTicks ?b ?u ?p (now waitingState) (Suc 0) cleared"
    by (elim conjE)
  then have e: "pollTicks ?b ?u ?p (now waitingState) 0 None
                  = 0 # pollTicks ?b ?u ?p (now waitingState) (Suc 0) None"
    by simp
  from main have "(\<forall>t. \<exists>e. getPickerSession ?b t ?u ?p = Threw e)
        \<and> effectPickerSessionId ?u waitingState = Some ?p \<longrightarrow>
      (\<exists>t. pickerEffect ?b ?u waitingState =
             waitingState\<lparr>calls := calls waitingState
                              @ map (\<lambda>k. (tickTime (now waitingState) k, GetPickerSession ?u ?p))
                                  [0 ..< 41],
                          now := t\<rparr>)"
    by (elim conjE)
  with all target
  have "\<exists>t. pickerEffect ?b ?u waitingState =
             waitingState\<lparr>calls := calls waitingState
                              @ map (\<lambda>k. (tickTime (now waitingState) k, GetPickerSession ?u ?p))
                                  [0 ..< 41],
                          now := t\<rparr>"
    by blast
  then have f: "\<exists>t. pickerEffect ?b ?u waitingState =
             waitingState\<lparr>calls := map (\<lambda>k. (k * 3000, GetPickerSession ?u ?p)) [0 ..< 41],
                          now := t\<rparr>"
    by (simp add: waitingState_simps tickTime_def pollIntervalMs_def del: upt_Suc)
  show ?thesis
    apply (intro conjI)
            apply (fact fired)
           apply (simp add: fails)
          apply (fact a)
         apply (fact b)
        apply (fact c)
       apply (fact d)
      apply (fact e)
     apply (fact target)
    apply (fact f)
    done
qed




text \<open>
  C1. The processed set guards the polling effect only. The \<^verbatim>\<open>Check selection\<close> button
  calls \<^verbatim>\<open>handlePickerFinished\<close> without adding the picker session to the set; its
  message and \<^verbatim>\<open>setLoading(false)\<close> make the effect run again, the session is not in the
  set, the first poll sees \<^verbatim>\<open>media_items_set\<close> and calls \<^verbatim>\<open>handlePickerFinished\<close> a second
  time: the media list is fetched and stored twice for one completion.
\<close>

theorem manual_check_then_poll_stores_twice:
  "map snd (calls (pickerEffect pickedBackend ''user-1''
             (clickCheckSelection pickedBackend ''user-1'' pickerMessage waitingState)))
   = [GetPickerSession ''user-1'' ''picker-1'',
      ListPickerMedia ''user-1'' ''picker-1'',
      StoreReferencePhotos ''user-1'' ''session-1'' [''photo-1''] [''https://photos.example/1''],
      GetPickerSession ''user-1'' ''picker-1'',
      GetPickerSession ''user-1'' ''picker-1'',
      ListPickerMedia ''user-1'' ''picker-1'',
      StoreReferencePhotos ''user-1'' ''session-1'' [''photo-1''] [''https://photos.example/1'']]"
proof -
  let ?b = pickedBackend and ?u = "''user-1''" and ?p = "''picker-1''"
  let ?store = "StoreReferencePhotos ''user-1'' ''session-1'' [''photo-1''] [''https://photos.example/1'']"
  define st1 where "st1 = clickCheckSelection ?b ?u pickerMessage waitingState"
  have click: "st1 = handlePickerFinished ?b ?u ?p waitingState"
    by (simp add: st1_def clickCheckSelection_def pickerButtonsEnabled_def
        waitingState_simps pickerMessage_simps)
  have st1: "st1 =
      (sent ?b ?store (sent ?b (ListPickerMedia ?u ?p) (sent ?b (GetPickerSession ?u ?p)
         (waitingState\<lparr>selectingReferences := False, loading := True\<rparr>))))
      \<lparr>messages := messages waitingState @
         [\<lparr>role = Assistant,
           content = or_else []
             ''Here are your reference photos. Add any context below, then click Generate when ready.'',
           metadata = stageOnly ''ready_to_generate''\<rparr>],
       loading := False\<rparr>"
    unfolding click
    using handlePickerFinished_stores [of waitingState "''session-1''" ?u ?b ?p
        "\<lparr>media_items_set = True\<rparr>"
        "[\<lparr>item_media_item_id = ''photo-1'', item_url = Some ''https://photos.example/1''\<rparr>]"
        "\<lparr>message = [], response_metadata = stageOnly ''ready_to_generate''\<rparr>"]
    by (simp add: waitingState_simps pickedBackend_simps truthy_def)
  have f1: "messages st1 = [pickerMessage,
           \<lparr>role = Assistant,
           content = or_else []
             ''Here are your reference photos. Add any context below, then click Generate when ready.'',
           metadata = stageOnly ''ready_to_generate''\<rparr>]"
    and f2: "loading st1 = False" and f3: "sessionId st1 = Some ''session-1''"
    and f4: "processedPickerSessions st1 = []" and f5: "now st1 = 600"
    and f6: "calls st1 = [(0, GetPickerSession ?u ?p), (200, ListPickerMedia ?u ?p), (400, ?store)]"
    unfolding st1 by (simp_all add: sent_simps waitingState_simps pickedBackend_simps)
  have target: "effectPickerSessionId ?u st1 = Some ?p"
    by (simp add: effectPickerSessionId_def f1 f2 f3 f4 pickerMessage_simps truthy_def set_has_def)
  define st2 where "st2 = (sent ?b (GetPickerSession ?u ?p) st1)
           \<lparr>processedPickerSessions := set_add ?p (processedPickerSessions st1)\<rparr>"
  have sees: "seesItemsSet ?b ?u ?p (now st1)"
    by (simp add: seesItemsSet_def pickedBackend_simps)
  have ticks: "pollTicks ?b ?u ?p (now st1) 0 None = [0]"
    by (rule pollTicks_first_sees [OF sees]) (simp add: pickedBackend_simps pollIntervalMs_def)
  have first: "poll ?b ?u ?p (now st1) st1 = (True, handlePickerFinished ?b ?u ?p st2)"
    unfolding st2_def
    by (rule poll_set [of st1 "now st1" ?b ?u ?p "\<lparr>media_items_set = True\<rparr>"])
      (simp_all add: pickedBackend_simps)
  note run = pickerEffect_one_poll [OF target ticks first]
  have g: "sessionId st2 = Some ''session-1''" "now st2 = 800"
    "calls st2 = calls st1 @ [(600, GetPickerSession ?u ?p)]"
    "processedPickerSessions st2 = [?p]"
    by (simp_all add: st2_def sent_simps f3 f4 f5 pickedBackend_simps set_add_def)
  have st3: "handlePickerFinished ?b ?u ?p st2 =
      (sent ?b ?store (sent ?b (ListPickerMedia ?u ?p) (sent ?b (GetPickerSession ?u ?p)
         (st2\<lparr>selectingReferences := False, loading := True\<rparr>))))
      \<lparr>messages := messages st2 @
         [\<lparr>role = Assistant,
           content = or_else []
             ''Here are your reference photos. Add any context below, then click Generate when ready.'',
           metadata = stageOnly ''ready_to_generate''\<rparr>],
       loading := False\<rparr>"
    using handlePickerFinished_stores [of st2 "''session-1''" ?u ?b ?p
        "\<lparr>media_items_set = True\<rparr>"
        "[\<lparr>item_media_item_id = ''photo-1'', item_url = Some ''https://photos.example/1''\<rparr>]"
        "\<lparr>message = [], response_metadata = stageOnly ''ready_to_generate''\<rparr>"]
    by (simp add: g pickedBackend_simps truthy_def)
  have "calls (handlePickerFinished ?b ?u ?p st2) =
     calls st1 @ [(600, GetPickerSession ?u ?p), (800, GetPickerSession ?u ?p),
                  (1000, ListPickerMedia ?u ?p), (1200, ?store)]"
    unfolding st3 by (simp add: sent_simps g pickedBackend_simps)
  then have "calls (pickerEffect ?b ?u st1) =
     calls st1 @ [(600, GetPickerSession ?u ?p), (800, GetPickerSession ?u ?p),
                  (1000, ListPickerMedia ?u ?p), (1200, ?store)]"
    unfolding run by simp
  then show ?thesis
    unfolding st1_def [symmetric] by (simp add: f6)
qed








subsection \<open>The budget check before a generation\<close>

text \<open>
  C3, for the governor and the orchestrator as the spec describes them (the back end is not
  under \<^verbatim>\<open>src/\<close>). When the user's daily total has reached the ceiling, the check answers
  \<^verbatim>\<open>exceeded\<close> and \<^verbatim>\<open>GenerateFromReferences\<close> ends with \<^verbatim>\<open>BudgetExceeded\<close>, an outcome of
  its own and not the generic failure or the policy violation; no call to the screener or
  to the generation service has been issued, and the session and the governor are returned
  as they were. After the day boundary, a session of the same user that is below its own
  ceiling is no longer refused, and the action does issue external calls.
\<close>

theorem budget_exceeded_rejects_before_calls:
  assumes "daily_ceiling g \<le> daily_total g (user_id s)"
  shows "governorCheck g (user_id s) (session_id s) = Exceeded
       \<and> orchestratorGenerate c g s additional_context = (BudgetExceeded, s, g, [])
       \<and> BudgetExceeded \<noteq> UnexpectedFailure \<and> BudgetExceeded \<noteq> PolicyViolation
       \<and> (\<forall>s'. user_id s' = user_id s \<and> 0 < daily_ceiling g
                \<and> session_total g (session_id s') < session_ceiling g \<longrightarrow>
              governorCheck (dayBoundary g (user_id s)) (user_id s') (session_id s') \<noteq> Exceeded
              \<and> snd (snd (snd (orchestratorGenerate c (dayBoundary g (user_id s)) s'
                                  additional_context))) \<noteq> [])"
proof -
  have chk: "governorCheck g (user_id s) (session_id s) = Exceeded"
    using assms by (simp add: governorCheck_def)
  have rejected: "orchestratorGenerate c g s additional_context = (BudgetExceeded, s, g, [])"
    by (simp add: orchestratorGenerate_def chk)
  have later: "governorCheck (dayBoundary g (user_id s)) (user_id s') (session_id s') \<noteq> Exceeded
              \<and> snd (snd (snd (orchestratorGenerate c (dayBoundary g (user_id s)) s'
                                  additional_context))) \<noteq> []"
    if h: "user_id s' = user_id s \<and> 0 < daily_ceiling g
           \<and> session_total g (session_id s') < session_ceiling g" for s'
  proof -
    have ok: "governorCheck (dayBoundary g (user_id s)) (user_id s') (session_id s') \<noteq> Exceeded"
      using h by (simp add: governorCheck_def dayBoundary_def)
    then have "snd (snd (snd (orchestratorGenerate c (dayBoundary g (user_id s)) s'
                                  additional_context))) \<noteq> []"
      by (simp add: orchestratorGenerate_def Let_def split: option.splits)
    with ok show ?thesis by (intro conjI)
  qed
  show ?thesis
    using chk rejected later by simp
qed



text \<open>
  The theorem at a user who has used 50000 of 50000 daily tokens: refused with no call
  issued, and served after the day boundary.
\<close>

theorem budget_exceeded_rejects_before_calls_witness:
  "daily_ceiling spentGovernor \<le> daily_total spentGovernor (user_id confirmedSession)
   \<and> orchestratorGenerate approvingCollaborators spentGovernor confirmedSession None
       = (BudgetExceeded, confirmedSession, spentGovernor, [])
   \<and> 0 < daily_ceiling spentGovernor
   \<and> session_total spentGovernor (session_id confirmedSession) < session_ceiling spentGovernor
   \<and> governorCheck (dayBoundary spentGovernor (user_id confirmedSession))
         (user_id confirmedSession) (session_id confirmedSession) \<noteq> Exceeded
   \<and> snd (snd (snd (orchestratorGenerate approvingCollaborators
         (dayBoundary spentGovernor (user_id confirmedSession)) confirmedSession None))) \<noteq> []"
proof -
  have spent: "daily_ceiling spentGovernor \<le> daily_total spentGovernor (user_id confirmedSession)"
    by (simp add: spentGovernor_def)
  have fresh: "user_id confirmedSession = user_id confirmedSession \<and> 0 < daily_ceiling spentGovernor
    \<and> session_total spentGovernor (session_id confirmedSession) < session_ceiling spentGovernor"
    by (simp add: spentGovernor_def)
  note main = budget_exceeded_rejects_before_calls [OF spent, of approvingCollaborators None]
  from main have "\<forall>s'. user_id s' = user_id confirmedSession \<and> 0 < daily_ceiling spentGovernor
                \<and> session_total spentGovernor (session_id s') < session_ceiling spentGovernor \<longrightarrow>
              governorCheck (dayBoundary spentGovernor (user_id confirmedSession)) (user_id s')
                (session_id s') \<noteq> Exceeded
              \<and> snd (snd (snd (orchestratorGenerate approvingCollaborators
                    (dayBoundary spentGovernor (user_id confirmedSession)) s' None))) \<noteq> []"
    by (elim conjE)
  from this [THEN spec, of confirmedSession] fresh
  have later: "governorCheck (dayBoundary spentGovernor (user_id confirmedSession))
         (user_id confirmedSession) (session_id confirmedSession) \<noteq> Exceeded
   \<and> snd (snd (snd (orchestratorGenerate approvingCollaborators
         (dayBoundary spentGovernor (user_id confirmedSession)) confirmedSession None))) \<noteq> []"
    by blast
  from main have "orchestratorGenerate approvingCollaborators spentGovernor confirmedSession None
       = (BudgetExceeded, confirmedSession, spentGovernor, [])"
    by (elim conjE)
  with spent fresh later show ?thesis
    by (intro conjI) simp_all
qed

subsection \<open>The reference-photo search\<close>

text \<open>
  C7, for the search strategy as the spec describes it (the back end is not under
  \<^verbatim>\<open>src/\<close>). The queries are the date query over 14 days before and after the day of the
  memory and, when people or pets were extracted, the content query; the timeout is
  10000 ms, the caps are 5 and 8. A query that answers in time contributes the first 5 of
  its photos; one that runs past the timeout or fails contributes none; what a query
  contributes depends on its own answer and duration only. The result is the merged list
  cut to 8: the contribution of the date query followed by that of the content query, with
  a photo kept exactly when no photo before it in that list has its media item id. So it
  has at most 8 photos, no media item id twice, and only photos that a query contributed.
  When no query contributes a photo, the next stage is the one a skip leads to.
\<close>

theorem search_strategy_caps_and_degrades:
  "searchQueries when_day who_people who_pets =
     DateQuery (when_day - 14) (when_day + 14)
     # (if who_people = [] \<and> who_pets = [] then [] else [ContentQuery who_people who_pets])
   \<and> searchTimeoutMs = 10000 \<and> perQueryCap = 5 \<and> overallCap = 8
   \<and> (\<forall>ps. \<not> searchTimeoutMs < duration svc q \<and> answer svc q = Photos ps \<longrightarrow>
            boundedQuery svc q = take 5 ps)
   \<and> (searchTimeoutMs < duration svc q \<or> answer svc q = QueryFailed \<longrightarrow> boundedQuery svc q = [])
   \<and> (answer svc2 q = answer svc q \<and> duration svc2 q = duration svc q \<longrightarrow>
        boundedQuery svc2 q = boundedQuery svc q)
   \<and> searchReferencePhotos svc when_day who_people who_pets =
       (let xs = boundedQuery svc (DateQuery (when_day - 14) (when_day + 14))
                 @ (if who_people = [] \<and> who_pets = [] then []
                    else boundedQuery svc (ContentQuery who_people who_pets))
        in take 8
             (map (nth xs)
                (filter (\<lambda>i. \<forall>j < i. media_item_id (xs ! j) \<noteq> media_item_id (xs ! i))
                   [0 ..< length xs])))
   \<and> length (searchReferencePhotos svc when_day who_people who_pets) \<le> 8
   \<and> distinct (map media_item_id (searchReferencePhotos svc when_day who_people who_pets))
   \<and> set (searchReferencePhotos svc when_day who_people who_pets)
       \<subseteq> (\<Union>x \<in> set (searchQueries when_day who_people who_pets). set (boundedQuery svc x))
   \<and> ((\<forall>x \<in> set (searchQueries when_day who_people who_pets). boundedQuery svc x = []) \<longrightarrow>
        stageAfterSearch (searchReferencePhotos svc when_day who_people who_pets) = stageAfterSkip)"
proof -
  let ?date = "DateQuery (when_day - 14) (when_day + 14)"
  let ?content = "ContentQuery who_people who_pets"
  let ?all = "concat (map (boundedQuery svc) (searchQueries when_day who_people who_pets))"
  have q: "searchQueries when_day who_people who_pets =
     ?date # (if who_people = [] \<and> who_pets = [] then [] else [?content])"
    by (simp add: searchQueries_def windowDays_def)
  have numbers: "searchTimeoutMs = 10000" "perQueryCap = 5" "overallCap = 8"
    by (simp_all add: searchTimeoutMs_def perQueryCap_def overallCap_def)
  have capped: "\<forall>ps. \<not> searchTimeoutMs < duration svc q \<and> answer svc q = Photos ps \<longrightarrow>
            boundedQuery svc q = take 5 ps"
    by (simp add: boundedQuery_def perQueryCap_def)
  have degrade: "searchTimeoutMs < duration svc q \<or> answer svc q = QueryFailed
                  \<longrightarrow> boundedQuery svc q = []"
    by (auto simp: boundedQuery_def)
  have own: "answer svc2 q = answer svc q \<and> duration svc2 q = duration svc q \<longrightarrow>
        boundedQuery svc2 q = boundedQuery svc q"
    by (simp add: boundedQuery_def)
  have all: "?all = boundedQuery svc ?date
                 @ (if who_people = [] \<and> who_pets = [] then [] else boundedQuery svc ?content)"
    unfolding q by simp
  have merged: "searchReferencePhotos svc when_day who_people who_pets =
       (let xs = boundedQuery svc ?date
                 @ (if who_people = [] \<and> who_pets = [] then [] else boundedQuery svc ?content)
        in take 8
             (map (nth xs)
                (filter (\<lambda>i. \<forall>j < i. media_item_id (xs ! j) \<noteq> media_item_id (xs ! i))
                   [0 ..< length xs])))"
    unfolding searchReferencePhotos_def all numbers Let_def
    by (subst dedupeById_first) simp
  have total: "length (searchReferencePhotos svc when_day who_people who_pets) \<le> 8"
    by (simp add: searchReferencePhotos_def numbers)
  have unique: "distinct (map media_item_id (searchReferencePhotos svc when_day who_people who_pets))"
    by (rule searchReferencePhotos_distinct)
  have "set (searchReferencePhotos svc when_day who_people who_pets) \<subseteq> set (dedupeById [] ?all)"
    unfolding searchReferencePhotos_def by (rule set_take_subset)
  also have "\<dots> \<subseteq> set ?all"
    using dedupeById_ids [of "[]" ?all] by blast
  also have "\<dots> = (\<Union>x \<in> set (searchQueries when_day who_people who_pets). set (boundedQuery svc x))"
    by simp
  finally have from_queries: "set (searchReferencePhotos svc when_day who_people who_pets)
       \<subseteq> (\<Union>x \<in> set (searchQueries when_day who_people who_pets). set (boundedQuery svc x))" .
  have nothing: "(\<forall>x \<in> set (searchQueries when_day who_people who_pets). boundedQuery svc x = []) \<longrightarrow>
        stageAfterSearch (searchReferencePhotos svc when_day who_people who_pets) = stageAfterSkip"
  proof
    assume "\<forall>x \<in> set (searchQueries when_day who_people who_pets). boundedQuery svc x = []"
    then have "?all = []" by simp
    then have "searchReferencePhotos svc when_day who_people who_pets = []"
      unfolding searchReferencePhotos_def by (simp only: dedupeById.simps take_Nil)
    then show "stageAfterSearch (searchReferencePhotos svc when_day who_people who_pets)
                 = stageAfterSkip"
      by (simp add: stageAfterSearch_def)
  qed
  show ?thesis
    apply (intro conjI)
               apply (fact q)
              apply (fact numbers(1))
             apply (fact numbers(2))
            apply (fact numbers(3))
           apply (fact capped)
          apply (fact degrade)
         apply (fact own)
        apply (fact merged)
       apply (fact total)
      apply (fact unique)
     apply (fact from_queries)
    apply (fact nothing)
    done
qed

text \<open>
  The theorem at three services. The first answers both queries in time: the date query
  with six photos, of which five count, the content query with five, one of them returned
  by the date query too; nine different photos are merged and eight are kept. The date
  query of the second takes 20 seconds, and the result is what the content query
  contributes. Both queries of the third fail, and the next stage is the one of a skip.
\<close>

theorem search_strategy_caps_and_degrades_witness:
  "\<not> searchTimeoutMs < duration busyService (DateQuery (100 - 14) (100 + 14))
   \<and> boundedQuery busyService (DateQuery (100 - 14) (100 + 14))
       = map examplePhoto [''a'', ''b'', ''c'', ''d'', ''e'']
   \<and> boundedQuery busyService (ContentQuery [''Emma''] [])
       = map examplePhoto [''e'', ''g'', ''h'', ''i'', ''j'']
   \<and> searchReferencePhotos busyService 100 [''Emma''] []
       = map examplePhoto [''a'', ''b'', ''c'', ''d'', ''e'', ''g'', ''h'', ''i'']
   \<and> searchTimeoutMs < duration slowDateService (DateQuery (100 - 14) (100 + 14))
   \<and> boundedQuery slowDateService (DateQuery (100 - 14) (100 + 14)) = []
   \<and> searchReferencePhotos slowDateService 100 [''Emma''] []
       = [examplePhoto ''b'', examplePhoto ''c'']
   \<and> duration (slowDateService\<lparr>duration := (\<lambda>q. 300)\<rparr>) (ContentQuery [''Emma''] [])
       = duration slowDateService (ContentQuery [''Emma''] [])
   \<and> boundedQuery (slowDateService\<lparr>duration := (\<lambda>q. 300)\<rparr>) (ContentQuery [''Emma''] [])
       = boundedQuery slowDateService (ContentQuery [''Emma''] [])
   \<and> answer failingService (ContentQuery [''Emma''] []) = QueryFailed
   \<and> boundedQuery failingService (ContentQuery [''Emma''] []) = []
   \<and> boundedQuery failingService (DateQuery (100 - 14) (100 + 14)) = []
   \<and> stageAfterSearch (searchReferencePhotos failingService 100 [''Emma''] []) = stageAfterSkip"
proof -
  let ?date = "DateQuery (100 - 14) (100 + 14)"
  let ?content = "ContentQuery [''Emma''] []"
  let ?kept = "\<lambda>xs. map (nth xs)
                (filter (\<lambda>i. \<forall>j < i. media_item_id (xs ! j) \<noteq> media_item_id (xs ! i))
                   [0 ..< length xs])"
  have kept: "?kept xs = dedupeById [] xs" for xs
    by (simp add: dedupeById_first)
  note busy_date = search_strategy_caps_and_degrades
    [where when_day = 100 and who_people = "[''Emma'']" and who_pets = "[]"
       and svc = busyService and q = ?date and ?svc2.0 = busyService]
  note busy_content = search_strategy_caps_and_degrades
    [where when_day = 100 and who_people = "[''Emma'']" and who_pets = "[]"
       and svc = busyService and q = ?content and ?svc2.0 = busyService]
  note slow = search_strategy_caps_and_degrades
    [where when_day = 100 and who_people = "[''Emma'']" and who_pets = "[]"
       and svc = slowDateService and q = ?date and ?svc2.0 = slowDateService]
  note slow_content = search_strategy_caps_and_degrades
    [where when_day = 100 and who_people = "[''Emma'']" and who_pets = "[]"
       and svc = slowDateService and q = ?content and ?svc2.0 = slowDateService]
  note failing = search_strategy_caps_and_degrades
    [where when_day = 100 and who_people = "[''Emma'']" and who_pets = "[]"
       and svc = failingService and q = ?content and ?svc2.0 = failingService]
  note failing_date = search_strategy_caps_and_degrades
    [where when_day = 100 and who_people = "[''Emma'']" and who_pets = "[]"
       and svc = failingService and q = ?date and ?svc2.0 = failingService]
  have quick: "\<not> searchTimeoutMs < duration busyService q" for q
    by (simp add: busyService_def searchTimeoutMs_def)
  have answers: "answer busyService ?date
                   = Photos (map examplePhoto [''a'', ''b'', ''c'', ''d'', ''e'', ''f''])"
    "answer busyService ?content = Photos (map examplePhoto [''e'', ''g'', ''h'', ''i'', ''j''])"
    by (simp_all add: busyService_def)
  from busy_date have "\<forall>ps. \<not> searchTimeoutMs < duration busyService ?date
                          \<and> answer busyService ?date = Photos ps \<longrightarrow>
                        boundedQuery busyService ?date = take 5 ps"
    by (elim conjE)
  with quick answers(1) have bd: "boundedQuery busyService ?date
       = map examplePhoto [''a'', ''b'', ''c'', ''d'', ''e'']"
    by simp
  from busy_content have "\<forall>ps. \<not> searchTimeoutMs < duration busyService ?content
                          \<and> answer busyService ?content = Photos ps \<longrightarrow>
                        boundedQuery busyService ?content = take 5 ps"
    by (elim conjE)
  with quick answers(2) have bc: "boundedQuery busyService ?content
       = map examplePhoto [''e'', ''g'', ''h'', ''i'', ''j'']"
    by simp
  from busy_date have "searchReferencePhotos busyService 100 [''Emma''] [] =
       (let xs = boundedQuery busyService ?date
                 @ (if [''Emma''] = [] \<and> ([] :: string list) = [] then []
                    else boundedQuery busyService ?content)
        in take 8 (?kept xs))"
    by (elim conjE)
  then have busy: "searchReferencePhotos busyService 100 [''Emma''] []
       = map examplePhoto [''a'', ''b'', ''c'', ''d'', ''e'', ''g'', ''h'', ''i'']"
    unfolding Let_def kept by (simp add: bd [simplified] bc examplePhoto_def)
  have late: "searchTimeoutMs < duration slowDateService ?date"
    by (simp add: slowDateService_def searchTimeoutMs_def)
  from slow have "searchTimeoutMs < duration slowDateService ?date
                    \<or> answer slowDateService ?date = QueryFailed
                  \<longrightarrow> boundedQuery slowDateService ?date = []"
    by (elim conjE)
  with late have none: "boundedQuery slowDateService ?date = []"
    by blast
  from slow_content have "\<forall>ps. \<not> searchTimeoutMs < duration slowDateService ?content
                          \<and> answer slowDateService ?content = Photos ps \<longrightarrow>
                        boundedQuery slowDateService ?content = take 5 ps"
    by (elim conjE)
  moreover have "\<not> searchTimeoutMs < duration slowDateService ?content"
    "answer slowDateService ?content
       = Photos [examplePhoto ''b'', examplePhoto ''c'', examplePhoto ''b'']"
    by (simp_all add: slowDateService_def searchTimeoutMs_def)
  ultimately have sc: "boundedQuery slowDateService ?content
                         = [examplePhoto ''b'', examplePhoto ''c'', examplePhoto ''b'']"
    by simp
  from slow have "searchReferencePhotos slowDateService 100 [''Emma''] [] =
       (let xs = boundedQuery slowDateService ?date
                 @ (if [''Emma''] = [] \<and> ([] :: string list) = [] then []
                    else boundedQuery slowDateService ?content)
        in take 8 (?kept xs))"
    by (elim conjE)
  then have found: "searchReferencePhotos slowDateService 100 [''Emma''] []
                         = [examplePhoto ''b'', examplePhoto ''c'']"
    unfolding Let_def kept by (simp add: none [simplified] sc examplePhoto_def)
  have agree: "answer (slowDateService\<lparr>duration := (\<lambda>q. 300)\<rparr>) ?content
                 = answer slowDateService ?content"
    "duration (slowDateService\<lparr>duration := (\<lambda>q. 300)\<rparr>) ?content
       = duration slowDateService ?content"
    by (simp_all add: slowDateService_def)
  from search_strategy_caps_and_degrades
    [where when_day = 100 and who_people = "[''Emma'']" and who_pets = "[]"
       and svc = slowDateService and q = ?content
       and ?svc2.0 = "slowDateService\<lparr>duration := (\<lambda>q. 300)\<rparr>"]
  have "answer (slowDateService\<lparr>duration := (\<lambda>q. 300)\<rparr>) ?content
          = answer slowDateService ?content
        \<and> duration (slowDateService\<lparr>duration := (\<lambda>q. 300)\<rparr>) ?content
            = duration slowDateService ?content \<longrightarrow>
        boundedQuery (slowDateService\<lparr>duration := (\<lambda>q. 300)\<rparr>) ?content
          = boundedQuery slowDateService ?content"
    by (elim conjE)
  with agree have other: "boundedQuery (slowDateService\<lparr>duration := (\<lambda>q. 300)\<rparr>) ?content
          = boundedQuery slowDateService ?content"
    by blast
  have failed: "answer failingService ?content = QueryFailed"
    "answer failingService ?date = QueryFailed"
    by (simp_all add: failingService_def)
  from failing have "searchTimeoutMs < duration failingService ?content
                    \<or> answer failingService ?content = QueryFailed
                  \<longrightarrow> boundedQuery failingService ?content = []"
    by (elim conjE)
  with failed(1) have no_content: "boundedQuery failingService ?content = []"
    by blast
  from failing_date have "searchTimeoutMs < duration failingService ?date
                    \<or> answer failingService ?date = QueryFailed
                  \<longrightarrow> boundedQuery failingService ?date = []"
    by (elim conjE)
  with failed(2) have no_date: "boundedQuery failingService ?date = []"
    by blast
  from failing have queries: "searchQueries 100 [''Emma''] [] =
      ?date # (if [''Emma''] = [] \<and> ([] :: string list) = [] then [] else [?content])"
    by (elim conjE)
  from failing have "(\<forall>x \<in> set (searchQueries 100 [''Emma''] []). boundedQuery failingService x = [])
      \<longrightarrow> stageAfterSearch (searchReferencePhotos failingService 100 [''Emma''] []) = stageAfterSkip"
    by (elim conjE)
  moreover have "\<forall>x \<in> set (searchQueries 100 [''Emma''] []). boundedQuery failingService x = []"
    unfolding queries using no_content no_date by simp
  ultimately have skipped:
    "stageAfterSearch (searchReferencePhotos failingService 100 [''Emma''] []) = stageAfterSkip"
    by blast
  show ?thesis
    apply (intro conjI)
              apply (fact quick)
             apply (fact bd)
            apply (fact bc)
           apply (fact busy)
          apply (fact late)
         apply (fact none)
          apply (fact found)
         apply (fact agree(2))
        apply (fact other)
       apply (fact failed(1))
      apply (fact no_content)
     apply (fact no_date)
    apply (fact skipped)
    done
qed

end
